theory Spec2Isabelle
  imports Main
begin

section \<open>Characters and strings\<close>

text \<open>
  A Python string is a sequence of code points. A \<^typ>\<open>char\<close> of the model is a code
  point below 256 (the ASCII and Latin-1 blocks of Unicode), and a \<^typ>\<open>string\<close> is a
  text of such code points; a text with a code point from 256 on is not a value of the
  type. On the code points below 256 the functions below are those of Python:
  \<^item> the pattern class \<^verbatim>\<open>\d\<close> and the digits of \<^verbatim>\<open>int()\<close> are the decimal digits
    of Unicode, of which only \<open>0\<close> to \<open>9\<close> lie below 256;
  \<^item> \<^verbatim>\<open>str.strip()\<close> removes the white space of \<^verbatim>\<open>str.isspace\<close>: TAB, LF, VT, FF, CR,
    FS, GS, RS, US, the blank, NEL (U+0085) and the no-break space (U+00A0);
  \<^item> \<^verbatim>\<open>str.lower()\<close> changes the letters \<open>A\<close> to \<open>Z\<close> and the upper-case letters
    U+00C0 to U+00DE (all of that range but the multiplication sign U+00D7);
  \<^item> under \<^verbatim>\<open>re.IGNORECASE\<close> a letter of the pattern matches the characters with
    the same lower case, which below 256 are its two ASCII forms.
\<close>

definition is_digit :: "char \<Rightarrow> bool" where
  "is_digit c = (c \<in> set ''0123456789'')"

definition is_space :: "char \<Rightarrow> bool" where
  "is_space c = (c \<in> set [CHR 0x09, CHR 0x0A, CHR 0x0B, CHR 0x0C, CHR 0x0D,
                            CHR 0x1C, CHR 0x1D, CHR 0x1E, CHR 0x1F, CHR 0x20,
                            CHR 0x85, CHR 0xA0])"

definition is_upper :: "char \<Rightarrow> bool" where
  "is_upper c = (c \<in> set (''ABCDEFGHIJKLMNOPQRSTUVWXYZ'' @
     [CHR 0xC0, CHR 0xC1, CHR 0xC2, CHR 0xC3, CHR 0xC4, CHR 0xC5, CHR 0xC6, CHR 0xC7,
      CHR 0xC8, CHR 0xC9, CHR 0xCA, CHR 0xCB, CHR 0xCC, CHR 0xCD, CHR 0xCE, CHR 0xCF,
      CHR 0xD0, CHR 0xD1, CHR 0xD2, CHR 0xD3, CHR 0xD4, CHR 0xD5, CHR 0xD6,
      CHR 0xD8, CHR 0xD9, CHR 0xDA, CHR 0xDB, CHR 0xDC, CHR 0xDD, CHR 0xDE]))"

text \<open>
  \<^verbatim>\<open>str.lower()\<close> on one character: the lower-case form of an upper-case letter
  below 256 is 32 code points above it, which is bit 5 set.
\<close>

fun lower_char :: "char \<Rightarrow> char" where
  "lower_char (Char b0 b1 b2 b3 b4 b5 b6 b7) =
     (if is_upper (Char b0 b1 b2 b3 b4 b5 b6 b7) then Char b0 b1 b2 b3 b4 True b6 b7
      else Char b0 b1 b2 b3 b4 b5 b6 b7)"

definition lower :: "string \<Rightarrow> string" where
  "lower s = map lower_char s"

text \<open>\<^verbatim>\<open>s.strip()\<close> and \<^verbatim>\<open>s.strip('.')\<close>: both ends are trimmed.\<close>

definition strip_where :: "(char \<Rightarrow> bool) \<Rightarrow> string \<Rightarrow> string" where
  "strip_where P s = rev (dropWhile P (rev (dropWhile P s)))"

definition strip :: "string \<Rightarrow> string" where
  "strip s = strip_where is_space s"

text \<open>The digit's value, and the value of a run of digits read in base ten.\<close>

definition digit_val :: "char \<Rightarrow> int" where
  "digit_val c = int (of_char c) - 48"

definition decimal_value :: "string \<Rightarrow> int" where
  "decimal_value ds = foldl (\<lambda>a c. 10 * a + digit_val c) 0 ds"

text \<open>
  \<^verbatim>\<open>int(s)\<close> in base ten: surrounding white space is ignored, one sign may lead, and
  the body is digits with single underscores between digits. Anything else raises
  \<^verbatim>\<open>ValueError\<close>, the value \<^term>\<open>None\<close> here. The white space of \<^verbatim>\<open>int()\<close> is
  narrower than that of \<^verbatim>\<open>str.strip()\<close>: it is TAB, LF, VT, FF, CR and the blank,
  and NEL and the no-break space, but not FS, GS, RS and US. A body of more than
  \<^verbatim>\<open>sys.int_info.default_max_str_digits\<close> digits (4300, underscores not counted)
  raises \<^verbatim>\<open>ValueError\<close> as well; the model takes this default of the interpreter.
\<close>

definition is_int_space :: "char \<Rightarrow> bool" where
  "is_int_space c = (c \<in> set [CHR 0x09, CHR 0x0A, CHR 0x0B, CHR 0x0C, CHR 0x0D, CHR 0x20,
                                CHR 0x85, CHR 0xA0])"

definition int_max_str_digits :: nat where
  "int_max_str_digits = 4300"

fun int_body :: "bool \<Rightarrow> string \<Rightarrow> bool" where
  "int_body prev_digit [] = prev_digit"
| "int_body prev_digit (c # cs) =
     (if is_digit c then int_body True cs
      else c = CHR ''_'' \<and> prev_digit \<and> int_body False cs)"

definition py_int :: "string \<Rightarrow> int option" where
  "py_int s =
     (let t = strip_where is_int_space s;
          body = (if t \<noteq> [] \<and> (hd t = CHR ''+'' \<or> hd t = CHR ''-'') then tl t else t);
          sign = (if t \<noteq> [] \<and> hd t = CHR ''-'' then - 1 else 1);
          digits = filter (\<lambda>c. c \<noteq> CHR ''_'') body
      in if int_body False body \<and> length digits \<le> int_max_str_digits
         then Some (sign * decimal_value digits)
         else None)"

section \<open>The voice directive and the split of the document\<close>

text \<open>
  \<^verbatim>\<open>VOICE_CMD_PATTERN = re.compile(r'/voice=(\d+)', re.IGNORECASE)\<close>.
  \<^term>\<open>match_voice_cmd s\<close> is \<^verbatim>\<open>VOICE_CMD_PATTERN.match(s)\<close>: a match anchored at the
  start of \<open>s\<close>, giving the captured digits (the longest run, the quantifier is greedy)
  and the text after the match.
\<close>

definition match_voice_cmd :: "string \<Rightarrow> (string \<times> string) option" where
  "match_voice_cmd s =
     (let digits = takeWhile is_digit (drop 7 s)
      in if lower (take 7 s) = ''/voice='' \<and> digits \<noteq> []
         then Some (digits, dropWhile is_digit (drop 7 s))
         else None)"

lemma match_voice_cmd_shorter:
  "match_voice_cmd s = Some (d, r) \<Longrightarrow> length r < length s"
proof -
  assume m: "match_voice_cmd s = Some (d, r)"
  then have r: "r = dropWhile is_digit (drop 7 s)" and d: "takeWhile is_digit (drop 7 s) \<noteq> []"
    by (auto simp: match_voice_cmd_def Let_def split: if_splits)
  from d have "drop 7 s \<noteq> []" by auto
  then have "length (drop 7 s) < length s \<or> s = drop 7 s" by auto
  moreover have "length (dropWhile is_digit (drop 7 s)) < length (drop 7 s)"
    using d by (metis length_dropWhile_le takeWhile_dropWhile_id append_self_conv2
        le_neq_implies_less length_append add_cancel_left_left length_0_conv)
  ultimately show ?thesis using r
    by (metis length_drop less_trans)
qed

text \<open>
  \<^verbatim>\<open>VOICE_CMD_PATTERN.split(content)\<close>: the text between the matches, found from left
  to right without overlap, with the captured digits of each match between them.
  \<open>acc\<close> holds, reversed, the text read since the last match.
\<close>

function re_split_from :: "string \<Rightarrow> string \<Rightarrow> string list" where
  "re_split_from acc [] = [rev acc]"
| "re_split_from acc (c # cs) =
     (case match_voice_cmd (c # cs) of
        Some (d, r) \<Rightarrow> rev acc # d # re_split_from [] r
      | None \<Rightarrow> re_split_from (c # acc) cs)"
  by pat_completeness auto
termination
  by (relation "measure (\<lambda>(acc, s). length s)") (auto dest: match_voice_cmd_shorter)

definition re_split :: "string \<Rightarrow> string list" where
  "re_split content = re_split_from [] content"

section \<open>The parser\<close>

record segment =
  seg_text :: string
  voice_index :: int

text \<open>
  The loop of \<^verbatim>\<open>parse_input_file\<close> over \<^verbatim>\<open>parts\<close>. Every branch advances the
  index by one, so the loop is a recursion over the list; \<open>segments\<close> and
  \<open>current_voice_index\<close> are the loop's variables.
\<close>

fun parse_loop :: "string list \<Rightarrow> segment list \<Rightarrow> int \<Rightarrow> segment list" where
  "parse_loop [] segments current_voice_index = segments"
| "parse_loop (p # parts) segments current_voice_index =
     (let part = strip p in
      if part = [] then parse_loop parts segments current_voice_index
      else if match_voice_cmd (''/voice='' @ part) \<noteq> None then
        (case py_int part of
           Some n \<Rightarrow> parse_loop parts segments n
         | None \<Rightarrow> parse_loop parts segments current_voice_index)
      else parse_loop parts
             (segments @ [\<lparr>seg_text = part, voice_index = current_voice_index\<rparr>])
             current_voice_index)"

text \<open>
  \<^verbatim>\<open>content.replace('\n', ' ').replace('\r', '')\<close>.
\<close>

definition normalize_newlines :: "string \<Rightarrow> string" where
  "normalize_newlines content =
     filter (\<lambda>c. c \<noteq> CHR 0x0D) (map (\<lambda>c. if c = CHR 0x0A then CHR '' '' else c) content)"

text \<open>
  \<^verbatim>\<open>parse_input_file\<close>. Its first argument is what reading the file gave: \<^term>\<open>None\<close>
  when opening or reading raised (the function then prints an error and returns the
  empty list), the content otherwise. The messages it prints are left out.
\<close>

definition parse_input_file :: "string option \<Rightarrow> int \<Rightarrow> segment list" where
  "parse_input_file file_content default_voice_index =
     (case file_content of
        None \<Rightarrow> []
      | Some content \<Rightarrow>
          parse_loop (re_split (normalize_newlines content)) [] default_voice_index)"


section \<open>The voice catalog\<close>

datatype engine_kind = Pyttsx3 | EdgeTTS

text \<open>One entry of \<^verbatim>\<open>unified_voices\<close>; \<open>ident\<close> is the entry's key \<^verbatim>\<open>'id'\<close>.\<close>

record voice =
  index :: nat
  engine :: engine_kind
  name :: string
  ident :: string
  lang :: string

text \<open>The fields of \<^verbatim>\<open>UnifiedTTSEngine\<close>.\<close>

record tts_engine =
  unified_voices :: "voice list"
  pyttsx3_available :: bool

text \<open>
  \<^verbatim>\<open>get_voice_by_index\<close>: \<^verbatim>\<open>self.unified_voices[index]\<close>, with \<^verbatim>\<open>IndexError\<close> turned
  into \<^verbatim>\<open>None\<close>. Indexing a Python list accepts a negative index, which counts from
  the end of the list.
\<close>

definition get_voice_by_index :: "tts_engine \<Rightarrow> int \<Rightarrow> voice option" where
  "get_voice_by_index eng i =
     (let n = int (length (unified_voices eng))
      in if 0 \<le> i \<and> i < n then Some (unified_voices eng ! nat i)
         else if - n \<le> i \<and> i < 0 then Some (unified_voices eng ! nat (n + i))
         else None)"

section \<open>The world outside the program\<close>

text \<open>
  Decoded audio is a list of samples; \<^verbatim>\<open>AudioSegment.empty()\<close> is the empty list and
  \<^verbatim>\<open>+=\<close> appends.
\<close>

type_synonym audio = "nat list"

text \<open>
  The file system, the two speech engines and the audio codec are not part of the
  program. They are a parameter: a record of operations on a state \<open>'w\<close> of the world.
  An operation that may raise returns \<^term>\<open>False\<close> when it raised (an exception of
  the class \<^verbatim>\<open>Exception\<close>; an interrupt from outside the program is left out).
  \<^item> \<open>pyttsx3_init\<close> is \<^verbatim>\<open>pyttsx3.init()\<close>;
  \<^item> \<open>pyttsx3_save voice_id text path\<close> is \<^verbatim>\<open>setProperty('voice', voice_id)\<close>,
    \<^verbatim>\<open>save_to_file(text, path)\<close> and \<^verbatim>\<open>runAndWait()\<close> on the engine;
  \<^item> \<open>pyttsx3_stop\<close> is \<^verbatim>\<open>stop()\<close> on the engine;
  \<^item> \<open>edge_save text voice_id path\<close> is
    \<^verbatim>\<open>asyncio.run(_run_edge_tts_segment_save(text, voice_id, path))\<close>;
  \<^item> \<open>audio_from_file\<close> is \<^verbatim>\<open>AudioSegment.from_file\<close>, \<^term>\<open>None\<close> when it raises;
  \<^item> \<open>audio_export audio path format\<close> is \<^verbatim>\<open>AudioSegment.export\<close>;
  \<^item> \<open>path_sep\<close> and \<open>alt_sep\<close> are \<^verbatim>\<open>os.sep\<close> and \<^verbatim>\<open>os.altsep\<close>.
\<close>

record 'w os_env =
  path_sep :: char
  alt_sep :: "char option"
  read_file :: "string \<Rightarrow> 'w \<Rightarrow> string option"
  os_makedirs :: "string \<Rightarrow> 'w \<Rightarrow> bool \<times> 'w"
  pyttsx3_init :: "'w \<Rightarrow> bool \<times> 'w"
  pyttsx3_save :: "string \<Rightarrow> string \<Rightarrow> string \<Rightarrow> 'w \<Rightarrow> bool \<times> 'w"
  pyttsx3_stop :: "'w \<Rightarrow> bool \<times> 'w"
  edge_save :: "string \<Rightarrow> string \<Rightarrow> string \<Rightarrow> 'w \<Rightarrow> bool \<times> 'w"
  os_path_exists :: "string \<Rightarrow> 'w \<Rightarrow> bool"
  audio_from_file :: "string \<Rightarrow> 'w \<Rightarrow> audio option"
  audio_export :: "audio \<Rightarrow> string \<Rightarrow> string \<Rightarrow> 'w \<Rightarrow> bool \<times> 'w"
  os_remove :: "string \<Rightarrow> 'w \<Rightarrow> bool \<times> 'w"
  os_rmdir :: "string \<Rightarrow> 'w \<Rightarrow> bool \<times> 'w"

text \<open>
  What a run does is recorded as a trace: the messages it prints and the calls it makes
  to the world, each call with its answer. Banners and progress lines are left out.
  \<open>EngineSave text voice_id path\<close> and \<open>EdgeSave text voice_id path\<close> are the calls
  that write the audio of a segment.
\<close>

datatype message =
    WarnOutOfRange int int
  | ErrVoiceNotFound int
  | ErrPyttsx3Unavailable
  | ErrSynthesis engine_kind
  | FailedSegment nat
  | MsgNoSegments
  | AbortNoAudio
  | ErrLoad string
  | MsgSuccess string
  | FatalExport
  | MsgCleanedUp

datatype event =
    Print message
  | Makedirs string bool
  | EngineInit bool
  | EngineSave string string string bool
  | EngineStop bool
  | EdgeSave string string string bool
  | Exists string bool
  | FromFile string "audio option"
  | Export audio string string bool
  | Remove string bool
  | Rmdir string bool

text \<open>
  The state of a run of \<^verbatim>\<open>process_and_concatenate\<close>: the world, the trace so far and
  the two local variables that the synthesis loop updates.
\<close>

record 'w job_state =
  world :: 'w
  trace :: "event list"
  temp_files :: "string list"
  successful_segments :: nat

definition emit :: "event \<Rightarrow> 'w job_state \<Rightarrow> 'w job_state" where
  "emit e st = st\<lparr>trace := trace st @ [e]\<rparr>"

section \<open>Synthesis of one segment\<close>

definition TEMP_DIR :: string where
  "TEMP_DIR = ''tts_temp_segments''"

definition default_voice_index :: int where
  "default_voice_index = 0"

text \<open>The decimal numeral of a natural number, as an f-string prints it.\<close>

function str_of_nat :: "nat \<Rightarrow> string" where
  "str_of_nat n =
     (if n < 10 then [''0123456789'' ! n]
      else str_of_nat (n div 10) @ [''0123456789'' ! (n mod 10)])"
  by pat_completeness auto
termination
  by (relation "measure (\<lambda>n. n)") auto

text \<open>\<^verbatim>\<open>os.path.join(TEMP_DIR, f"segment_{i}")\<close>.\<close>

definition base_temp_path :: "'w os_env \<Rightarrow> nat \<Rightarrow> string" where
  "base_temp_path env i = TEMP_DIR @ [path_sep env] @ ''segment_'' @ str_of_nat i"

text \<open>
  An exception that leaves a function is a \<open>py_error\<close>, named after the call that
  raised it.
\<close>

datatype py_error = StopError | MakedirsError | RemoveError string | RmdirError

text \<open>
  How both branches of \<^verbatim>\<open>synthesize_segment\<close> end their \<^verbatim>\<open>try\<close> block: after the
  engine has written, the path is returned if the file exists; if the engine raised,
  the \<^verbatim>\<open>except\<close> clause prints the error and returns \<^verbatim>\<open>None\<close>.
\<close>

definition after_save ::
  "'w os_env \<Rightarrow> engine_kind \<Rightarrow> string \<Rightarrow> bool \<Rightarrow> 'w job_state
     \<Rightarrow> string option \<times> 'w job_state" where
  "after_save env kind output_filepath ok st =
     (if ok
      then (let found = os_path_exists env output_filepath (world st)
            in (if found then Some output_filepath else None,
                emit (Exists output_filepath found) st))
      else (None, emit (Print (ErrSynthesis kind)) st))"

text \<open>
  The pyttsx3 branch. When \<^verbatim>\<open>pyttsx3.init()\<close> raises, \<^verbatim>\<open>temp_engine\<close> is still
  \<^verbatim>\<open>None\<close> and the \<^verbatim>\<open>finally\<close> clause does nothing. Otherwise the \<^verbatim>\<open>finally\<close>
  clause calls \<^verbatim>\<open>temp_engine.stop()\<close>, after the \<^verbatim>\<open>return\<close> of the \<^verbatim>\<open>try\<close> block or of
  the \<^verbatim>\<open>except\<close> clause; no handler stands around that call, so its exception takes
  the place of the value returned and leaves the function.
\<close>

definition synthesize_pyttsx3 ::
  "'w os_env \<Rightarrow> string \<Rightarrow> string \<Rightarrow> string \<Rightarrow> 'w job_state
     \<Rightarrow> (py_error + string option) \<times> 'w job_state" where
  "synthesize_pyttsx3 env txt voice_id output_filepath st =
     (let (started, w1) = pyttsx3_init env (world st);
          st1 = emit (EngineInit started) (st\<lparr>world := w1\<rparr>)
      in if \<not> started then (Inr None, emit (Print (ErrSynthesis Pyttsx3)) st1)
         else
           (let (ok, w2) = pyttsx3_save env voice_id txt output_filepath (world st1);
                st2 = emit (EngineSave txt voice_id output_filepath ok) (st1\<lparr>world := w2\<rparr>);
                (res, st3) = after_save env Pyttsx3 output_filepath ok st2;
                (stopped, w4) = pyttsx3_stop env (world st3);
                st4 = emit (EngineStop stopped) (st3\<lparr>world := w4\<rparr>)
            in if stopped then (Inr res, st4) else (Inl StopError, st4)))"

text \<open>The edge-tts branch: it has no \<^verbatim>\<open>finally\<close> clause.\<close>

definition synthesize_edge ::
  "'w os_env \<Rightarrow> string \<Rightarrow> string \<Rightarrow> string \<Rightarrow> 'w job_state
     \<Rightarrow> (py_error + string option) \<times> 'w job_state" where
  "synthesize_edge env txt voice_id output_filepath st =
     (let (ok, w1) = edge_save env txt voice_id output_filepath (world st);
          st1 = emit (EdgeSave txt voice_id output_filepath ok) (st\<lparr>world := w1\<rparr>);
          (res, st2) = after_save env EdgeTTS output_filepath ok st1
      in (Inr res, st2))"

text \<open>
  \<^verbatim>\<open>synthesize_segment\<close>: the path of the file written or \<^term>\<open>None\<close>, or the
  exception that left the function.
\<close>

definition synthesize_segment ::
  "'w os_env \<Rightarrow> tts_engine \<Rightarrow> string \<Rightarrow> int \<Rightarrow> string \<Rightarrow> 'w job_state
     \<Rightarrow> (py_error + string option) \<times> 'w job_state" where
  "synthesize_segment env eng txt vi base_output_path st =
     (case get_voice_by_index eng vi of
        None \<Rightarrow> (Inr None, emit (Print (ErrVoiceNotFound vi)) st)
      | Some v \<Rightarrow>
          (let ext = (if engine v = Pyttsx3 then ''.wav'' else ''.mp3'');
               output_filepath = base_output_path @ ext
           in if engine v = Pyttsx3
              then (if \<not> pyttsx3_available eng
                    then (Inr None, emit (Print ErrPyttsx3Unavailable) st)
                    else synthesize_pyttsx3 env txt (ident v) output_filepath st)
              else synthesize_edge env txt (ident v) output_filepath st))"

section \<open>The pipeline\<close>

text \<open>
  The body of the loop over \<^verbatim>\<open>enumerate(segments)\<close>: the voice index is checked against
  the size of the catalog, the segment is synthesized, and the result is recorded.
  The call of \<^verbatim>\<open>synthesize_segment\<close> stands in no \<^verbatim>\<open>try\<close> block: an exception that
  leaves it leaves the loop and \<^verbatim>\<open>process_and_concatenate\<close>.
\<close>

definition process_segment ::
  "'w os_env \<Rightarrow> tts_engine \<Rightarrow> nat \<Rightarrow> segment \<Rightarrow> 'w job_state
     \<Rightarrow> py_error option \<times> 'w job_state" where
  "process_segment env eng i seg st =
     (let out_of_range = (int (length (unified_voices eng)) \<le> voice_index seg);
          vi = (if out_of_range then default_voice_index else voice_index seg);
          st1 = (if out_of_range
                 then emit (Print (WarnOutOfRange (voice_index seg) default_voice_index)) st
                 else st)
      in case synthesize_segment env eng (seg_text seg) vi (base_temp_path env i) st1 of
           (Inl e, st2) \<Rightarrow> (Some e, st2)
         | (Inr (Some p), st2) \<Rightarrow>
             (None, st2\<lparr>temp_files := temp_files st2 @ [p],
                        successful_segments := Suc (successful_segments st2)\<rparr>)
         | (Inr None, st2) \<Rightarrow> (None, emit (Print (FailedSegment i)) st2))"

fun synthesis_loop ::
  "'w os_env \<Rightarrow> tts_engine \<Rightarrow> nat \<Rightarrow> segment list \<Rightarrow> 'w job_state
     \<Rightarrow> py_error option \<times> 'w job_state" where
  "synthesis_loop env eng i [] st = (None, st)"
| "synthesis_loop env eng i (seg # segs) st =
     (case process_segment env eng i seg st of
        (Some e, st1) \<Rightarrow> (Some e, st1)
      | (None, st1) \<Rightarrow> synthesis_loop env eng (Suc i) segs st1)"

text \<open>
  The loop that loads the temporary files: a file that cannot be loaded is reported
  and left out.
\<close>

fun load_loop ::
  "'w os_env \<Rightarrow> string list \<Rightarrow> audio \<Rightarrow> 'w job_state \<Rightarrow> audio \<times> 'w job_state" where
  "load_loop env [] combined_audio st = (combined_audio, st)"
| "load_loop env (p # ps) combined_audio st =
     (case audio_from_file env p (world st) of
        Some a \<Rightarrow> load_loop env ps (combined_audio @ a) (emit (FromFile p (Some a)) st)
      | None \<Rightarrow>
          load_loop env ps combined_audio
            (emit (Print (ErrLoad p)) (emit (FromFile p None) st)))"


section \<open>Export and cleanup\<close>

text \<open>\<^verbatim>\<open>s.rfind(c)\<close>: the last index of \<open>c\<close> in \<open>s\<close>, or \<open>-1\<close>.\<close>

definition rfind :: "char \<Rightarrow> string \<Rightarrow> int" where
  "rfind c s =
     (if c \<in> set s then int (length s) - 1 - int (length (takeWhile (\<lambda>x. x \<noteq> c) (rev s)))
      else - 1)"

text \<open>
  \<^verbatim>\<open>os.path.splitext\<close>, as the standard library computes it: the extension starts at
  the last dot, if that dot comes after the last separator and some character between
  the separator and the dot is not a dot.
\<close>

definition splitext :: "'w os_env \<Rightarrow> string \<Rightarrow> string \<times> string" where
  "splitext env p =
     (let sepIndex = (case alt_sep env of
                        None \<Rightarrow> rfind (path_sep env) p
                      | Some a \<Rightarrow> max (rfind (path_sep env) p) (rfind a p));
          dotIndex = rfind CHR ''.'' p
      in if sepIndex < dotIndex \<and>
            list_ex (\<lambda>c. c \<noteq> CHR ''.'')
              (take (nat (dotIndex - (sepIndex + 1))) (drop (nat (sepIndex + 1)) p))
         then (take (nat dotIndex) p, drop (nat dotIndex) p)
         else (p, []))"

text \<open>
  The path and the format handed to \<^verbatim>\<open>export\<close>:
  \<^verbatim>\<open>os.path.splitext(output_file)[1].lower().strip('.')\<close>, and \<^verbatim>\<open>".wav"\<close> appended
  when that is empty.
\<close>

definition export_target :: "'w os_env \<Rightarrow> string \<Rightarrow> string \<times> string" where
  "export_target env output_file =
     (let extension = strip_where (\<lambda>c. c = CHR ''.'') (lower (snd (splitext env output_file)))
      in if extension = [] then (output_file @ ''.wav'', ''wav'')
         else (output_file, extension))"

text \<open>
  The ways \<^verbatim>\<open>process_and_concatenate\<close> returns. It returns \<^verbatim>\<open>None\<close> wherever it
  returns; \<open>outcome\<close> names the place.
\<close>

datatype outcome = NoSegments | AllSegmentsFailed | Exported string string | ExportFailed

text \<open>Step 4, the \<^verbatim>\<open>try\<close> block around the export.\<close>

definition export_final ::
  "'w os_env \<Rightarrow> audio \<Rightarrow> string \<Rightarrow> 'w job_state \<Rightarrow> outcome \<times> 'w job_state" where
  "export_final env combined_audio output_file st =
     (let (out, extension) = export_target env output_file;
          (ok, w1) = audio_export env combined_audio out extension (world st);
          st1 = emit (Export combined_audio out extension ok) (st\<lparr>world := w1\<rparr>)
      in if ok then (Exported out extension, emit (Print (MsgSuccess out)) st1)
         else (ExportFailed, emit (Print FatalExport) st1))"

text \<open>
  Step 5: every temporary file is removed, then the directory. The calls are not
  inside a \<^verbatim>\<open>try\<close>: the first one that raises ends the function.
\<close>

fun remove_loop ::
  "'w os_env \<Rightarrow> string list \<Rightarrow> 'w job_state \<Rightarrow> py_error option \<times> 'w job_state" where
  "remove_loop env [] st = (None, st)"
| "remove_loop env (p # ps) st =
     (let (ok, w1) = os_remove env p (world st);
          st1 = emit (Remove p ok) (st\<lparr>world := w1\<rparr>)
      in if ok then remove_loop env ps st1 else (Some (RemoveError p), st1))"

definition cleanup :: "'w os_env \<Rightarrow> 'w job_state \<Rightarrow> py_error option \<times> 'w job_state" where
  "cleanup env st =
     (case remove_loop env (temp_files st) st of
        (Some e, st1) \<Rightarrow> (Some e, st1)
      | (None, st1) \<Rightarrow>
          (let (ok, w1) = os_rmdir env TEMP_DIR (world st1);
               st2 = emit (Rmdir TEMP_DIR ok) (st1\<lparr>world := w1\<rparr>)
           in if ok then (None, emit (Print MsgCleanedUp) st2) else (Some RmdirError, st2)))"

section \<open>The whole job\<close>

text \<open>
  \<^verbatim>\<open>process_and_concatenate\<close>, from the world \<open>w\<close> it starts in. The result is how the
  function ended (the exception that left it, or the place where it returned), and
  the state it ended in.
\<close>

definition process_and_concatenate ::
  "'w os_env \<Rightarrow> tts_engine \<Rightarrow> string \<Rightarrow> string \<Rightarrow> 'w
     \<Rightarrow> (py_error + outcome) \<times> 'w job_state" where
  "process_and_concatenate env eng input_file output_file w =
     (let segments = parse_input_file (read_file env input_file w) default_voice_index;
          st0 = \<lparr>world = w, trace = [], temp_files = [], successful_segments = 0\<rparr>
      in if segments = [] then (Inr NoSegments, emit (Print MsgNoSegments) st0)
         else
           (let (ok, w1) = os_makedirs env TEMP_DIR w;
                st1 = emit (Makedirs TEMP_DIR ok) (st0\<lparr>world := w1\<rparr>)
            in if \<not> ok then (Inl MakedirsError, st1)
               else
                 (case synthesis_loop env eng 0 segments st1 of
                    (Some e, st2) \<Rightarrow> (Inl e, st2)
                  | (None, st2) \<Rightarrow>
                      if successful_segments st2 = 0
                      then (Inr AllSegmentsFailed, emit (Print AbortNoAudio) st2)
                      else
                        (let (combined_audio, st3) = load_loop env (temp_files st2) [] st2;
                             (oc, st4) = export_final env combined_audio output_file st3
                         in case cleanup env st4 of
                              (Some e, st5) \<Rightarrow> (Inl e, st5)
                            | (None, st5) \<Rightarrow> (Inr oc, st5)))))"

section \<open>Reading a trace\<close>

fun export_of :: "event \<Rightarrow> (audio \<times> string \<times> string \<times> bool) list" where
  "export_of (Export a p f ok) = [(a, p, f, ok)]"
| "export_of _ = []"

fun load_of :: "event \<Rightarrow> (string \<times> audio option) list" where
  "load_of (FromFile p r) = [(p, r)]"
| "load_of _ = []"

fun removal_of :: "event \<Rightarrow> (string \<times> bool) list" where
  "removal_of (Remove p ok) = [(p, ok)]"
| "removal_of (Rmdir p ok) = [(p, ok)]"
| "removal_of _ = []"

fun backend_of :: "event \<Rightarrow> (engine_kind \<times> string \<times> string \<times> string \<times> bool) list" where
  "backend_of (EngineSave txt vid p ok) = [(Pyttsx3, txt, vid, p, ok)]"
| "backend_of (EdgeSave txt vid p ok) = [(EdgeTTS, txt, vid, p, ok)]"
| "backend_of _ = []"

fun load_error_of :: "event \<Rightarrow> string list" where
  "load_error_of (Print (ErrLoad p)) = [p]"
| "load_error_of _ = []"

fun result_of :: "event \<Rightarrow> string option list" where
  "result_of (Exists p True) = [Some p]"
| "result_of (Print (FailedSegment i)) = [None]"
| "result_of _ = []"

text \<open>
  The calls to \<^verbatim>\<open>export\<close>, the files loaded, the removals attempted, the result of
  each segment (of a loop that went through the segment), the calls that write audio
  and the load errors printed, each in the order of the trace.
\<close>

definition exports :: "event list \<Rightarrow> (audio \<times> string \<times> string \<times> bool) list" where
  "exports tr = concat (map export_of tr)"

definition loads :: "event list \<Rightarrow> (string \<times> audio option) list" where
  "loads tr = concat (map load_of tr)"

definition removals :: "event list \<Rightarrow> (string \<times> bool) list" where
  "removals tr = concat (map removal_of tr)"

definition segment_results :: "event list \<Rightarrow> string option list" where
  "segment_results tr = concat (map result_of tr)"

definition backend_calls ::
  "event list \<Rightarrow> (engine_kind \<times> string \<times> string \<times> string \<times> bool) list" where
  "backend_calls tr = concat (map backend_of tr)"

definition load_errors :: "event list \<Rightarrow> string list" where
  "load_errors tr = concat (map load_error_of tr)"

text \<open>
  The paths among the results of the segments, the audio among the loads and the
  paths among the loads that gave no audio.
\<close>

definition paths_of :: "string option list \<Rightarrow> string list" where
  "paths_of rs = concat (map (\<lambda>r. case r of None \<Rightarrow> [] | Some p \<Rightarrow> [p]) rs)"

definition decoded :: "(string \<times> audio option) list \<Rightarrow> audio" where
  "decoded ls = concat (map (\<lambda>(p, r). case r of None \<Rightarrow> [] | Some a \<Rightarrow> a) ls)"

definition unloaded :: "(string \<times> audio option) list \<Rightarrow> string list" where
  "unloaded ls = concat (map (\<lambda>(p, r). case r of None \<Rightarrow> [p] | Some a \<Rightarrow> []) ls)"

text \<open>
  What the segment with index \<open>k\<close> can give: nothing, or the temporary path of that
  index with the extension of one of the two engines.
\<close>

definition result_for :: "'w os_env \<Rightarrow> nat \<Rightarrow> string option \<Rightarrow> bool" where
  "result_for env k r =
     (r = None \<or> r = Some (base_temp_path env k @ ''.wav'') \<or>
      r = Some (base_temp_path env k @ ''.mp3''))"

text \<open>
  The text between the directives: the parts of the split at the even positions
  (the odd positions hold the captured digits of the directives).
\<close>

fun text_chunks :: "string list \<Rightarrow> string list" where
  "text_chunks [] = []"
| "text_chunks [t] = [t]"
| "text_chunks (t # d # parts) = t # text_chunks parts"

section \<open>A small world to run the program in\<close>

text \<open>
  A world for running the program on examples: the files are a list of paths, each with
  the engine that wrote it and its audio. The engines write the character codes of
  the text as samples. The switches say whether the remote engine answers, whether
  the codec can decode a compressed file, whether an export succeeds and whether a
  file may be removed.
\<close>

type_synonym demo_world = "(string \<times> engine_kind \<times> audio) list"

definition demo_env :: "string \<Rightarrow> bool \<Rightarrow> bool \<Rightarrow> bool \<Rightarrow> bool \<Rightarrow> demo_world os_env" where
  "demo_env document remote_up decodes_mp3 can_export can_remove =
     \<lparr> path_sep = CHR ''/'',
       alt_sep = None,
       read_file = (\<lambda>p w. if p = ''input.txt'' then Some document else None),
       os_makedirs = (\<lambda>d w. (True, w)),
       pyttsx3_init = (\<lambda>w. (True, w)),
       pyttsx3_save = (\<lambda>vid txt p w. (True, (p, Pyttsx3, map of_char txt) # w)),
       pyttsx3_stop = (\<lambda>w. (True, w)),
       edge_save = (\<lambda>txt vid p w.
          if remote_up then (True, (p, EdgeTTS, map of_char txt) # w) else (False, w)),
       os_path_exists = (\<lambda>p w. p \<in> fst ` set w),
       audio_from_file = (\<lambda>p w.
          case map_of w p of
            None \<Rightarrow> None
          | Some (k, a) \<Rightarrow> if k = EdgeTTS \<and> \<not> decodes_mp3 then None else Some a),
       audio_export = (\<lambda>a p f w. if can_export then (True, (p, Pyttsx3, a) # w) else (False, w)),
       os_remove = (\<lambda>p w.
          if can_remove \<and> p \<in> fst ` set w then (True, filter (\<lambda>e. fst e \<noteq> p) w)
          else (False, w)),
       os_rmdir = (\<lambda>d w. (True, w)) \<rparr>"

definition demo_engine :: tts_engine where
  "demo_engine =
     \<lparr> unified_voices =
         [\<lparr>index = 0, engine = Pyttsx3, name = ''Zira'', ident = ''zira'', lang = ''en_US''\<rparr>,
          \<lparr>index = 1, engine = EdgeTTS, name = ''Aria'', ident = ''en-US-AriaNeural'',
            lang = ''en-US''\<rparr>],
       pyttsx3_available = True \<rparr>"


text \<open>A job in the small world: the document is read from \<open>input.txt\<close>.\<close>

definition demo_job ::
  "string \<Rightarrow> bool \<Rightarrow> bool \<Rightarrow> bool \<Rightarrow> bool \<Rightarrow> string
     \<Rightarrow> (py_error + outcome) \<times> demo_world job_state" where
  "demo_job document remote_up decodes_mp3 can_export can_remove output_file =
     process_and_concatenate (demo_env document remote_up decodes_mp3 can_export can_remove)
       demo_engine ''input.txt'' output_file []"

text \<open>The same job in a world where \<^verbatim>\<open>stop()\<close> of the local engine raises.\<close>

definition demo_job_stop_raises ::
  "string \<Rightarrow> string \<Rightarrow> (py_error + outcome) \<times> demo_world job_state" where
  "demo_job_stop_raises document output_file =
     process_and_concatenate
       ((demo_env document True True True True)\<lparr>pyttsx3_stop := (\<lambda>w. (False, w))\<rparr>)
       demo_engine ''input.txt'' output_file []"


section \<open>Properties of the parser\<close>

lemma is_digit_not_space: "is_digit c \<Longrightarrow> \<not> is_space c \<and> \<not> is_int_space c"
  by (auto simp: is_digit_def is_space_def is_int_space_def)

lemma is_digit_not_mark:
  "is_digit c \<Longrightarrow> c \<noteq> CHR ''_'' \<and> c \<noteq> CHR ''+'' \<and> c \<noteq> CHR ''-''"
  by (auto simp: is_digit_def)

lemma strip_where_unchanged:
  assumes "s \<noteq> []" and "\<not> P (hd s)" and "\<not> P (last s)"
  shows "strip_where P s = s"
proof -
  from assms(1,2) have "dropWhile P s = s" by (cases s) auto
  moreover from assms(1,3) have "dropWhile P (rev s) = rev s"
    by (cases "rev s") (auto simp: hd_rev dest: arg_cong[where f=hd])
  ultimately show ?thesis by (simp add: strip_where_def)
qed

text \<open>
  The test \<^verbatim>\<open>VOICE_CMD_PATTERN.match(f"/voice={part}")\<close> of the loop succeeds as soon as
  the part starts with a digit: \<^verbatim>\<open>match\<close> does not look at the end of the string.
\<close>

lemma match_after_literal:
  "(match_voice_cmd (''/voice='' @ part) \<noteq> None) = (part \<noteq> [] \<and> is_digit (hd part))"
  by (auto simp: match_voice_cmd_def lower_def is_upper_def takeWhile_eq_Nil_iff)

lemma int_body_digits: "list_all is_digit ds \<Longrightarrow> int_body prev ds = (prev \<or> ds \<noteq> [])"
  by (induction ds arbitrary: prev) auto

lemma filter_digits: "list_all is_digit ds \<Longrightarrow> filter (\<lambda>c. c \<noteq> CHR ''_'') ds = ds"
  by (induction ds) (auto dest: is_digit_not_mark)

text \<open>
  On a non-empty run of decimal digits \<^verbatim>\<open>int\<close> returns the decimal value, unless the run
  is longer than the interpreter's limit on the length of decimal strings (4300 digits
  by default), in which case it raises \<^verbatim>\<open>ValueError\<close>.
\<close>

lemma py_int_digits:
  assumes "ds \<noteq> []" and "list_all is_digit ds"
  shows "py_int ds = (if length ds \<le> 4300 then Some (decimal_value ds) else None)"
proof -
  from assms have h: "is_digit (hd ds)" and l: "is_digit (last ds)"
    by (auto simp: list_all_iff)
  then have "strip_where is_int_space ds = ds"
    using assms(1) by (simp add: strip_where_unchanged is_digit_not_space)
  moreover from h have "hd ds \<noteq> CHR ''+''" and "hd ds \<noteq> CHR ''-''"
    by (auto dest: is_digit_not_mark)
  ultimately show ?thesis
    using assms by (simp add: py_int_def int_body_digits filter_digits int_max_str_digits_def)
qed

text \<open>
  The value that \<^verbatim>\<open>int\<close> gives to a run of digits is the positional one: the digit at
  position \<open>i\<close> of \<open>n\<close> digits counts \<open>10 ^ (n - 1 - i)\<close> times its own value, which
  is its code point minus 48.
\<close>

lemma decimal_value_snoc: "decimal_value (ds @ [d]) = 10 * decimal_value ds + digit_val d"
  by (simp add: decimal_value_def)

lemma decimal_value_positional:
  "decimal_value ds =
     (\<Sum>i<length ds. (int (of_char (ds ! i)) - 48) * 10 ^ (length ds - Suc i))"
proof (induction ds rule: rev_induct)
  case Nil
  then show ?case by (simp add: decimal_value_def)
next
  case (snoc d ds)
  have "(\<Sum>i<length ds. (int (of_char ((ds @ [d]) ! i)) - 48) * 10 ^ (length (ds @ [d]) - Suc i))
      = (\<Sum>i<length ds. 10 * ((int (of_char (ds ! i)) - 48) * 10 ^ (length ds - Suc i)))"
  proof (rule sum.cong)
    fix i assume "i \<in> {..<length ds}"
    then have i: "i < length ds" by simp
    then have "length (ds @ [d]) - Suc i = Suc (length ds - Suc i)" by simp
    with i show "(int (of_char ((ds @ [d]) ! i)) - 48) * 10 ^ (length (ds @ [d]) - Suc i)
        = 10 * ((int (of_char (ds ! i)) - 48) * 10 ^ (length ds - Suc i))"
      by (simp add: nth_append)
  qed simp
  then have "(\<Sum>i<length (ds @ [d]).
        (int (of_char ((ds @ [d]) ! i)) - 48) * 10 ^ (length (ds @ [d]) - Suc i))
      = 10 * (\<Sum>i<length ds. (int (of_char (ds ! i)) - 48) * 10 ^ (length ds - Suc i))
        + (int (of_char d) - 48)"
    by (simp add: sum_distrib_left)
  with snoc show ?case by (simp add: decimal_value_snoc digit_val_def)
qed

text \<open>
  C1. The claim: the parser emits one segment for each non-empty chunk of text between
  the directives. The loop does not tell text from captured digits by position but by
  content, and so drops a chunk of text that starts with a digit. On the document
  \<open>3 little pigs\<close>, which holds no directive, the split has one non-empty chunk of
  text, and the parser returns no segment.
\<close>

theorem digit_led_text_is_dropped:
  "parse_input_file (Some ''3 little pigs'') 0 = [] \<and>
   filter (\<lambda>c. c \<noteq> []) (map strip (text_chunks (re_split (normalize_newlines ''3 little pigs''))))
     = [''3 little pigs'']"
  by code_simp

text \<open>
  C2. The document \<open>Hello. /voice=1 World. /voice=0 Done.\<close>, parsed with default voice
  0, gives the three segments \<open>Hello.\<close> with voice 0, \<open>World.\<close> with voice 1 and
  \<open>Done.\<close> with voice 0, in this order.
\<close>

theorem parse_scenario:
  "parse_input_file (Some ''Hello. /voice=1 World. /voice=0 Done.'') 0 =
     [\<lparr>seg_text = ''Hello.'', voice_index = 0\<rparr>,
      \<lparr>seg_text = ''World.'', voice_index = 1\<rparr>,
      \<lparr>seg_text = ''Done.'', voice_index = 0\<rparr>]"
  by code_simp

text \<open>
  One turn of the loop on a part that is, once stripped, a non-empty run of digits, and
  on a part that does not start with a digit.
\<close>

lemma digit_chunk_step:
  assumes "strip p \<noteq> []" and "list_all is_digit (strip p)"
  shows "parse_loop (p # parts) segments cur =
         parse_loop parts segments
           (if length (strip p) \<le> 4300 then decimal_value (strip p) else cur)"
proof -
  from assms have "is_digit (hd (strip p))" by (auto simp: list_all_iff)
  with assms(1) have m: "match_voice_cmd (''/voice='' @ strip p) \<noteq> None"
    using match_after_literal [of "strip p"] by blast
  show ?thesis using m assms(1) by (simp add: Let_def py_int_digits [OF assms])
qed

lemma text_chunk_step:
  assumes "strip p \<noteq> []" and "\<not> is_digit (hd (strip p))"
  shows "parse_loop (p # parts) segments cur =
         parse_loop parts (segments @ [\<lparr>seg_text = strip p, voice_index = cur\<rparr>]) cur"
proof -
  from assms have m: "\<not> match_voice_cmd (''/voice='' @ strip p) \<noteq> None"
    using match_after_literal [of "strip p"] by blast
  show ?thesis using m assms(1) by (simp add: Let_def)
qed

text \<open>
  C10, as amended. A part of the split that, once stripped, is a non-empty run of
  decimal digits is consumed without a segment, whether or not a directive stood there
  in the document. When the run has at most 4300 digits, the loop goes on with the
  positional decimal value of the digits as the current voice index; when it is longer,
  \<^verbatim>\<open>int\<close> raises \<^verbatim>\<open>ValueError\<close>, the guard of the loop catches it, and the loop goes on
  with the current voice index unchanged.
\<close>

theorem digit_chunk_is_voice_switch:
  assumes "strip p \<noteq> []" and "list_all is_digit (strip p)"
  shows "parse_loop (p # parts) segments cur =
         parse_loop parts segments
           (if length (strip p) \<le> 4300
            then (\<Sum>i<length (strip p).
                    (int (of_char (strip p ! i)) - 48) * 10 ^ (length (strip p) - Suc i))
            else cur)"
  using digit_chunk_step [OF assms] decimal_value_positional [of "strip p"] by simp

theorem digit_chunk_is_voice_switch_witness:
  "strip '' 42 '' \<noteq> [] \<and> list_all is_digit (strip '' 42 '') \<and>
   parse_loop ['' 42 '', ''hi''] [] 0 = [\<lparr>seg_text = ''hi'', voice_index = 42\<rparr>]"
proof -
  have s: "strip '' 42 '' = ''42''" by code_simp
  have a: "strip '' 42 '' \<noteq> []" by code_simp
  have b: "list_all is_digit (strip '' 42 '')" by code_simp
  have d: "parse_loop [''hi''] [] 42 = [\<lparr>seg_text = ''hi'', voice_index = 42\<rparr>]" by code_simp
  have v: "(\<Sum>i<length ''42''. (int (of_char (''42'' ! i)) - 48) * 10 ^ (length ''42'' - Suc i))
      = 42"
    by (simp add: lessThan_Suc)
  from digit_chunk_is_voice_switch [OF a b, of "[''hi'']" "[]" 0]
  have "parse_loop ['' 42 '', ''hi''] [] 0 = parse_loop [''hi''] [] 42"
    unfolding s using v by simp
  with a b d show ?thesis by simp
qed

text \<open>
  A run of 4301 digits, as a part of its own and inside a document.
\<close>

lemma ones_are_digits: "list_all is_digit (replicate n CHR ''1'')"
  by (simp add: list_all_iff is_digit_def)

lemma strip_ones: "strip (replicate (Suc n) CHR ''1'') = replicate (Suc n) CHR ''1''"
proof -
  have ne: "replicate (Suc n) CHR ''1'' \<noteq> []" by simp
  have h: "hd (replicate (Suc n) CHR ''1'') = CHR ''1''" by simp
  have l: "last (replicate (Suc n) CHR ''1'') = CHR ''1''"
    by (rule last_replicate) simp
  have n1: "\<not> is_space CHR ''1''" by (simp add: is_space_def)
  show ?thesis
    unfolding strip_def
    by (rule strip_where_unchanged [OF ne]) (simp_all only: h l n1 not_False_eq_True)
qed

lemma takeWhile_ones:
  "takeWhile is_digit (replicate n CHR ''1'' @ ys) = replicate n CHR ''1'' @ takeWhile is_digit ys"
  by (intro takeWhile_append2) (simp add: is_digit_def)

lemma dropWhile_ones:
  "dropWhile is_digit (replicate n CHR ''1'' @ ys) = dropWhile is_digit ys"
  by (intro dropWhile_append2) (simp add: is_digit_def)

lemma split_long_directive:
  "re_split (normalize_newlines (''/voice=7 a /voice='' @ replicate 4301 CHR ''1'' @ '' b''))
     = [[], ''7'', '' a '', replicate 4301 CHR ''1'', '' b'']"
proof -
  have n: "normalize_newlines (''/voice=7 a /voice='' @ replicate 4301 CHR ''1'' @ '' b'')
      = ''/voice=7 a /voice='' @ replicate 4301 CHR ''1'' @ '' b''"
    by (simp add: normalize_newlines_def)
  have e: "replicate 4301 CHR ''1'' \<noteq> []" by simp
  show ?thesis
    unfolding n re_split_def
    using e
    by (simp add: match_voice_cmd_def Let_def lower_def is_upper_def is_digit_def
        takeWhile_ones dropWhile_ones)
qed

text \<open>
  C10, as stated, fails. The claim: every chunk of digits sets the voice cursor to the
  value of the digits. In the document \<open>/voice=7 a /voice=1...1 b\<close> with 4301 digits
  in the second directive, the chunk of 4301 digits is consumed without a segment, and
  the text after it is still tagged with voice 7, not with the value of the digits.
\<close>

theorem long_digit_run_leaves_cursor:
  "strip (replicate 4301 CHR ''1'') \<noteq> [] \<and>
   list_all is_digit (strip (replicate 4301 CHR ''1'')) \<and>
   text_chunks (re_split (normalize_newlines
       (''/voice=7 a /voice='' @ replicate 4301 CHR ''1'' @ '' b''))) = [[], '' a '', '' b''] \<and>
   parse_input_file (Some (''/voice=7 a /voice='' @ replicate 4301 CHR ''1'' @ '' b'')) 0
     = [\<lparr>seg_text = ''a'', voice_index = 7\<rparr>, \<lparr>seg_text = ''b'', voice_index = 7\<rparr>]"
proof -
  let ?d = "replicate 4301 CHR ''1''"
  have s: "strip ?d = ?d" using strip_ones [of 4300] by simp
  have ne: "strip ?d \<noteq> []" unfolding s by simp
  have dg: "list_all is_digit (strip ?d)" unfolding s by (rule ones_are_digits)
  have s0: "parse_loop ([] # ps) segs cur = parse_loop ps segs cur" for ps segs cur
    by (simp add: strip_def strip_where_def)
  have d7: "strip ''7'' \<noteq> []" "list_all is_digit (strip ''7'')"
    "length (strip ''7'') \<le> 4300" "decimal_value (strip ''7'') = 7"
    by code_simp+
  have s1: "parse_loop (''7'' # ps) segs cur = parse_loop ps segs 7" for ps segs cur
    using digit_chunk_step [OF d7(1,2), of ps segs cur] d7(3,4) by simp
  have ta: "strip '' a '' = ''a''" by code_simp
  have s2: "parse_loop ('' a '' # ps) segs cur
      = parse_loop ps (segs @ [\<lparr>seg_text = ''a'', voice_index = cur\<rparr>]) cur" for ps segs cur
    using text_chunk_step [of "'' a ''" ps segs cur] unfolding ta by (simp add: is_digit_def)
  have s3: "parse_loop (?d # ps) segs cur = parse_loop ps segs cur" for ps segs cur
    using digit_chunk_step [OF ne dg, of ps segs cur] unfolding s by simp
  have s4: "parse_loop ['' b''] [\<lparr>seg_text = ''a'', voice_index = 7\<rparr>] 7
      = [\<lparr>seg_text = ''a'', voice_index = 7\<rparr>, \<lparr>seg_text = ''b'', voice_index = 7\<rparr>]"
    by code_simp
  have "parse_input_file (Some (''/voice=7 a /voice='' @ ?d @ '' b'')) 0
      = [\<lparr>seg_text = ''a'', voice_index = 7\<rparr>, \<lparr>seg_text = ''b'', voice_index = 7\<rparr>]"
    unfolding parse_input_file_def option.case split_long_directive s0 s1
    by (simp only: s2 s3 append_Nil s4)
  moreover have "text_chunks (re_split (normalize_newlines
       (''/voice=7 a /voice='' @ ?d @ '' b''))) = [[], '' a '', '' b'']"
    unfolding split_long_directive by simp
  ultimately show ?thesis using ne dg by simp
qed

section \<open>What each step of the pipeline adds to the trace\<close>

lemma emit_fields [simp]:
  "trace (emit e st) = trace st @ [e]"
  "world (emit e st) = world st"
  "temp_files (emit e st) = temp_files st"
  "successful_segments (emit e st) = successful_segments st"
  by (simp_all add: emit_def)

lemma reading_append [simp]:
  "exports (xs @ ys) = exports xs @ exports ys"
  "loads (xs @ ys) = loads xs @ loads ys"
  "removals (xs @ ys) = removals xs @ removals ys"
  "segment_results (xs @ ys) = segment_results xs @ segment_results ys"
  "backend_calls (xs @ ys) = backend_calls xs @ backend_calls ys"
  "load_errors (xs @ ys) = load_errors xs @ load_errors ys"
  by (simp_all add: exports_def loads_def removals_def segment_results_def backend_calls_def
      load_errors_def)

lemma reading_Cons [simp]:
  "exports (e # tr) = export_of e @ exports tr"
  "loads (e # tr) = load_of e @ loads tr"
  "removals (e # tr) = removal_of e @ removals tr"
  "segment_results (e # tr) = result_of e @ segment_results tr"
  "backend_calls (e # tr) = backend_of e @ backend_calls tr"
  "load_errors (e # tr) = load_error_of e @ load_errors tr"
  by (simp_all add: exports_def loads_def removals_def segment_results_def backend_calls_def
      load_errors_def)

lemma reading_Nil [simp]:
  "exports [] = []" "loads [] = []" "removals [] = []" "segment_results [] = []"
  "backend_calls [] = []" "load_errors [] = []"
  by (simp_all add: exports_def loads_def removals_def segment_results_def backend_calls_def
      load_errors_def)

lemma paths_of_simps [simp]:
  "paths_of [] = []"
  "paths_of (None # rs) = paths_of rs"
  "paths_of (Some p # rs) = p # paths_of rs"
  "paths_of (rs @ rs') = paths_of rs @ paths_of rs'"
  by (simp_all add: paths_of_def)

lemma decoded_simps [simp]:
  "decoded [] = []"
  "decoded ((p, None) # ls) = decoded ls"
  "decoded ((p, Some a) # ls) = a @ decoded ls"
  "decoded (ls @ ls') = decoded ls @ decoded ls'"
  by (simp_all add: decoded_def)

lemma unloaded_simps [simp]:
  "unloaded [] = []"
  "unloaded ((p, None) # ls) = p # unloaded ls"
  "unloaded ((p, Some a) # ls) = unloaded ls"
  "unloaded (ls @ ls') = unloaded ls @ unloaded ls'"
  by (simp_all add: unloaded_def)

lemma after_save_effect:
  assumes "after_save env kind p ok st = (r, st')"
  shows "temp_files st' = temp_files st \<and>
         successful_segments st' = successful_segments st \<and>
         exports (trace st') = exports (trace st) \<and>
         loads (trace st') = loads (trace st) \<and>
         removals (trace st') = removals (trace st) \<and>
         load_errors (trace st') = load_errors (trace st) \<and>
         segment_results (trace st') = segment_results (trace st) @ map Some (paths_of [r]) \<and>
         (r = None \<or> r = Some p)"
  using assms by (auto simp: after_save_def Let_def split: if_splits)

lemma synthesize_pyttsx3_effect:
  assumes "synthesize_pyttsx3 env txt vid p st = (r, st')"
  shows "temp_files st' = temp_files st \<and>
         successful_segments st' = successful_segments st \<and>
         exports (trace st') = exports (trace st) \<and>
         loads (trace st') = loads (trace st) \<and>
         removals (trace st') = removals (trace st) \<and>
         load_errors (trace st') = load_errors (trace st) \<and>
         (case r of
            Inl e \<Rightarrow> e = StopError
          | Inr res \<Rightarrow>
              segment_results (trace st') = segment_results (trace st) @ map Some (paths_of [res]) \<and>
              (res = None \<or> res = Some p))"
proof -
  obtain started w1 where i: "pyttsx3_init env (world st) = (started, w1)"
    by (cases "pyttsx3_init env (world st)")
  define st1 where "st1 = emit (EngineInit started) (st\<lparr>world := w1\<rparr>)"
  show ?thesis
  proof (cases started)
    case False
    with assms i have "r = Inr None" and "st' = emit (Print (ErrSynthesis Pyttsx3)) st1"
      by (simp_all add: synthesize_pyttsx3_def st1_def)
    then show ?thesis by (simp add: st1_def)
  next
    case True
    obtain ok w2 where s: "pyttsx3_save env vid txt p (world st1) = (ok, w2)"
      by (cases "pyttsx3_save env vid txt p (world st1)")
    define st2 where "st2 = emit (EngineSave txt vid p ok) (st1\<lparr>world := w2\<rparr>)"
    obtain res st3 where a: "after_save env Pyttsx3 p ok st2 = (res, st3)"
      by (cases "after_save env Pyttsx3 p ok st2")
    obtain stopped w4 where t: "pyttsx3_stop env (world st3) = (stopped, w4)"
      by (cases "pyttsx3_stop env (world st3)")
    define st4 where "st4 = emit (EngineStop stopped) (st3\<lparr>world := w4\<rparr>)"
    have r: "(r, st') = (if stopped then (Inr res, st4) else (Inl StopError, st4))"
      using assms i True s a t
      unfolding synthesize_pyttsx3_def st4_def st2_def st1_def
      by (simp add: Let_def)
    note e = after_save_effect [OF a]
    have f: "temp_files st4 = temp_files st" "successful_segments st4 = successful_segments st"
      "exports (trace st4) = exports (trace st)" "loads (trace st4) = loads (trace st)"
      "removals (trace st4) = removals (trace st)"
      "load_errors (trace st4) = load_errors (trace st)"
      "segment_results (trace st4) = segment_results (trace st) @ map Some (paths_of [res])"
      using e by (simp_all add: st4_def st2_def st1_def)
    show ?thesis
    proof (cases stopped)
      case True
      with r have "r = Inr res" "st' = st4" by simp_all
      with f e show ?thesis by simp
    next
      case False
      with r have "r = Inl StopError" "st' = st4" by simp_all
      with f show ?thesis by simp
    qed
  qed
qed

lemma synthesize_edge_effect:
  assumes "synthesize_edge env txt vid p st = (r, st')"
  shows "temp_files st' = temp_files st \<and>
         successful_segments st' = successful_segments st \<and>
         exports (trace st') = exports (trace st) \<and>
         loads (trace st') = loads (trace st) \<and>
         removals (trace st') = removals (trace st) \<and>
         load_errors (trace st') = load_errors (trace st) \<and>
         (\<exists>res. r = Inr res \<and>
              segment_results (trace st') = segment_results (trace st) @ map Some (paths_of [res]) \<and>
              (res = None \<or> res = Some p))"
proof -
  obtain ok w1 where s: "edge_save env txt vid p (world st) = (ok, w1)"
    by (cases "edge_save env txt vid p (world st)")
  define st1 where "st1 = emit (EdgeSave txt vid p ok) (st\<lparr>world := w1\<rparr>)"
  obtain res st2 where a: "after_save env EdgeTTS p ok st1 = (res, st2)"
    by (cases "after_save env EdgeTTS p ok st1")
  have r: "r = Inr res" "st' = st2"
    using assms s a by (simp_all add: synthesize_edge_def Let_def st1_def [symmetric])
  from after_save_effect [OF a] show ?thesis
    unfolding r by (simp add: st1_def)
qed

lemma synthesize_segment_effect:
  assumes "synthesize_segment env eng txt vi base st = (r, st')"
  shows "temp_files st' = temp_files st \<and>
         successful_segments st' = successful_segments st \<and>
         exports (trace st') = exports (trace st) \<and>
         loads (trace st') = loads (trace st) \<and>
         removals (trace st') = removals (trace st) \<and>
         load_errors (trace st') = load_errors (trace st) \<and>
         (case r of
            Inl e \<Rightarrow> e = StopError
          | Inr res \<Rightarrow>
              segment_results (trace st') = segment_results (trace st) @ map Some (paths_of [res]) \<and>
              (res = None \<or> res = Some (base @ ''.wav'') \<or> res = Some (base @ ''.mp3'')))"
proof (cases "get_voice_by_index eng vi")
  case None
  with assms show ?thesis by (auto simp: synthesize_segment_def)
next
  case (Some v)
  show ?thesis
  proof (cases "engine v = Pyttsx3")
    case local: True
    show ?thesis
    proof (cases "pyttsx3_available eng")
      case False
      with assms Some local show ?thesis by (auto simp: synthesize_segment_def)
    next
      case True
      with assms Some local
      have "synthesize_pyttsx3 env txt (ident v) (base @ ''.wav'') st = (r, st')"
        by (simp add: synthesize_segment_def)
      from synthesize_pyttsx3_effect [OF this] show ?thesis
        by (cases r) auto
    qed
  next
    case False
    with assms Some
    have "synthesize_edge env txt (ident v) (base @ ''.mp3'') st = (r, st')"
      by (simp add: synthesize_segment_def)
    from synthesize_edge_effect [OF this] show ?thesis by auto
  qed
qed

lemma process_segment_effect:
  assumes "process_segment env eng i seg st = (e, st')"
  shows "exports (trace st') = exports (trace st) \<and>
         loads (trace st') = loads (trace st) \<and>
         removals (trace st') = removals (trace st) \<and>
         load_errors (trace st') = load_errors (trace st) \<and>
         (case e of
            Some err \<Rightarrow> err = StopError \<and> temp_files st' = temp_files st \<and>
              successful_segments st' = successful_segments st
          | None \<Rightarrow>
              (\<exists>r. result_for env i r \<and>
                 segment_results (trace st') = segment_results (trace st) @ [r] \<and>
                 temp_files st' = temp_files st @ paths_of [r] \<and>
                 successful_segments st' = successful_segments st + length (paths_of [r])))"
proof -
  define vi where "vi = (if int (length (unified_voices eng)) \<le> voice_index seg
                         then default_voice_index else voice_index seg)"
  define st1 where "st1 = (if int (length (unified_voices eng)) \<le> voice_index seg
       then emit (Print (WarnOutOfRange (voice_index seg) default_voice_index)) st else st)"
  obtain r st2 where
    s: "synthesize_segment env eng (seg_text seg) vi (base_temp_path env i) st1 = (r, st2)"
    by (cases "synthesize_segment env eng (seg_text seg) vi (base_temp_path env i) st1")
  note f = synthesize_segment_effect [OF s]
  have p: "(e, st') = (case r of
       Inl err \<Rightarrow> (Some err, st2)
     | Inr (Some p) \<Rightarrow> (None, st2\<lparr>temp_files := temp_files st2 @ [p],
                    successful_segments := Suc (successful_segments st2)\<rparr>)
     | Inr None \<Rightarrow> (None, emit (Print (FailedSegment i)) st2))"
    using assms s unfolding process_segment_def Let_def vi_def [symmetric] st1_def [symmetric]
    by (simp split: sum.splits option.splits)
  have pre: "exports (trace st1) = exports (trace st) \<and> loads (trace st1) = loads (trace st) \<and>
      removals (trace st1) = removals (trace st) \<and>
      load_errors (trace st1) = load_errors (trace st) \<and>
      segment_results (trace st1) = segment_results (trace st) \<and>
      temp_files st1 = temp_files st \<and> successful_segments st1 = successful_segments st"
    by (simp add: st1_def)
  show ?thesis
  proof (cases r)
    case (Inl err)
    with p have "e = Some err" "st' = st2" by simp_all
    with f pre Inl show ?thesis by simp
  next
    case (Inr res)
    show ?thesis
    proof (cases res)
      case None
      with p Inr have "e = None" "st' = emit (Print (FailedSegment i)) st2" by simp_all
      with f pre Inr None show ?thesis by (simp add: result_for_def)
    next
      case (Some q)
      with p Inr have "e = None" "st' = st2\<lparr>temp_files := temp_files st2 @ [q],
                    successful_segments := Suc (successful_segments st2)\<rparr>" by simp_all
      with f pre Inr Some show ?thesis by (auto simp: result_for_def)
    qed
  qed
qed

lemma synthesis_loop_effect:
  assumes "synthesis_loop env eng i segs st = (e, st')"
  shows "exports (trace st') = exports (trace st) \<and>
         loads (trace st') = loads (trace st) \<and>
         removals (trace st') = removals (trace st) \<and>
         load_errors (trace st') = load_errors (trace st) \<and>
         (\<exists>ps. temp_files st' = temp_files st @ ps \<and>
               successful_segments st' = successful_segments st + length ps) \<and>
         (case e of
            Some err \<Rightarrow> err = StopError
          | None \<Rightarrow>
              (\<exists>rs. list_all2 (result_for env) [i..<i + length segs] rs \<and>
                 segment_results (trace st') = segment_results (trace st) @ rs \<and>
                 temp_files st' = temp_files st @ paths_of rs \<and>
                 successful_segments st' = successful_segments st + length (paths_of rs)))"
  using assms
proof (induction segs arbitrary: i st)
  case Nil
  then show ?case by simp
next
  case (Cons seg segs)
  obtain e1 st1 where ps: "process_segment env eng i seg st = (e1, st1)"
    by (cases "process_segment env eng i seg st")
  note p = process_segment_effect [OF ps]
  show ?case
  proof (cases e1)
    case (Some err)
    with Cons.prems ps have "e = Some err" "st' = st1" by simp_all
    with p Some show ?thesis by simp
  next
    case None
    with Cons.prems ps have l: "synthesis_loop env eng (Suc i) segs st1 = (e, st')" by simp
    from p None obtain r where r: "result_for env i r"
      "segment_results (trace st1) = segment_results (trace st) @ [r]"
      "temp_files st1 = temp_files st @ paths_of [r]"
      "successful_segments st1 = successful_segments st + length (paths_of [r])"
      by auto
    note q = Cons.IH [OF l]
    from q obtain ps' where ps': "temp_files st' = temp_files st1 @ ps'"
      "successful_segments st' = successful_segments st1 + length ps'"
      by blast
    have inv: "\<exists>ps. temp_files st' = temp_files st @ ps \<and>
        successful_segments st' = successful_segments st + length ps"
      using ps' r(3,4) by (intro exI [of _ "paths_of [r] @ ps'"]) simp
    have tr: "exports (trace st') = exports (trace st)" "loads (trace st') = loads (trace st)"
      "removals (trace st') = removals (trace st)"
      "load_errors (trace st') = load_errors (trace st)"
      using p q by simp_all
    show ?thesis
    proof (cases e)
      case (Some err)
      with q have "err = StopError" by simp
      with Some tr inv show ?thesis by simp
    next
      case en: None
      with q obtain rs where rs: "list_all2 (result_for env) [Suc i..<Suc i + length segs] rs"
        "segment_results (trace st') = segment_results (trace st1) @ rs"
        "temp_files st' = temp_files st1 @ paths_of rs"
        "successful_segments st' = successful_segments st1 + length (paths_of rs)"
        by auto
      have "list_all2 (result_for env) [i..<i + length (seg # segs)] (r # rs)"
        using r(1) rs(1) by (simp add: upt_conv_Cons del: upt_Suc)
      moreover have "paths_of (r # rs) = paths_of [r] @ paths_of rs"
        using paths_of_simps(4) [of "[r]" rs] by simp
      ultimately have "\<exists>rs. list_all2 (result_for env) [i..<i + length (seg # segs)] rs \<and>
          segment_results (trace st') = segment_results (trace st) @ rs \<and>
          temp_files st' = temp_files st @ paths_of rs \<and>
          successful_segments st' = successful_segments st + length (paths_of rs)"
        using r rs by (intro exI [of _ "r # rs"]) simp
      with en tr inv show ?thesis by simp
    qed
  qed
qed

lemma load_loop_effect:
  assumes "load_loop env ps acc st = (combined, st')"
  shows "world st' = world st \<and> temp_files st' = temp_files st \<and>
         successful_segments st' = successful_segments st \<and>
         exports (trace st') = exports (trace st) \<and>
         removals (trace st') = removals (trace st) \<and>
         segment_results (trace st') = segment_results (trace st) \<and>
         loads (trace st') = loads (trace st) @ map (\<lambda>p. (p, audio_from_file env p (world st))) ps \<and>
         load_errors (trace st')
           = load_errors (trace st) @ unloaded (map (\<lambda>p. (p, audio_from_file env p (world st))) ps) \<and>
         combined = acc @ decoded (map (\<lambda>p. (p, audio_from_file env p (world st))) ps)"
  using assms
proof (induction ps arbitrary: acc st)
  case Nil
  then show ?case by simp
next
  case (Cons p ps)
  show ?case
  proof (cases "audio_from_file env p (world st)")
    case None
    with Cons.prems have "load_loop env ps acc
        (emit (Print (ErrLoad p)) (emit (FromFile p None) st)) = (combined, st')" by simp
    from Cons.IH [OF this] None show ?thesis by simp
  next
    case (Some a)
    with Cons.prems have "load_loop env ps (acc @ a) (emit (FromFile p (Some a)) st) = (combined, st')"
      by simp
    from Cons.IH [OF this] Some show ?thesis by simp
  qed
qed

lemma export_final_effect:
  assumes "export_final env a out st = (oc, st')"
  shows "temp_files st' = temp_files st \<and>
         successful_segments st' = successful_segments st \<and>
         loads (trace st') = loads (trace st) \<and>
         removals (trace st') = removals (trace st) \<and>
         segment_results (trace st') = segment_results (trace st) \<and>
         load_errors (trace st') = load_errors (trace st) \<and>
         (\<exists>ok. exports (trace st')
                 = exports (trace st) @ [(a, fst (export_target env out), snd (export_target env out), ok)] \<and>
               oc = (if ok then Exported (fst (export_target env out)) (snd (export_target env out))
                     else ExportFailed) \<and>
               (ok \<or> Print FatalExport \<in> set (trace st')))"
proof -
  obtain p f where t: "export_target env out = (p, f)"
    by (cases "export_target env out")
  obtain ok w1 where x: "audio_export env a p f (world st) = (ok, w1)"
    by (cases "audio_export env a p f (world st)")
  let ?st1 = "emit (Export a p f ok) (st\<lparr>world := w1\<rparr>)"
  have r: "(oc, st') = (if ok then (Exported p f, emit (Print (MsgSuccess p)) ?st1)
                        else (ExportFailed, emit (Print FatalExport) ?st1))"
    using assms t x by (auto simp: export_final_def Let_def)
  show ?thesis
  proof (cases ok)
    case True
    with r have "oc = Exported p f" and "st' = emit (Print (MsgSuccess p)) ?st1" by simp_all
    then show ?thesis using t True by (intro conjI exI [of _ True]) simp_all
  next
    case False
    with r have "oc = ExportFailed" and "st' = emit (Print FatalExport) ?st1" by simp_all
    then show ?thesis using t False by (intro conjI exI [of _ False]) simp_all
  qed
qed

lemma remove_loop_effect:
  assumes "remove_loop env ps st = (e, st')"
  shows "temp_files st' = temp_files st \<and>
         successful_segments st' = successful_segments st \<and>
         exports (trace st') = exports (trace st) \<and>
         loads (trace st') = loads (trace st) \<and>
         segment_results (trace st') = segment_results (trace st) \<and>
         load_errors (trace st') = load_errors (trace st) \<and>
         set (trace st) \<subseteq> set (trace st') \<and>
         (\<exists>new. removals (trace st') = removals (trace st) @ new \<and>
                map fst new = take (length new) ps \<and>
                list_all snd (butlast new) \<and>
                (case e of
                   None \<Rightarrow> list_all snd new \<and> length new = length ps
                 | Some err \<Rightarrow> new \<noteq> [] \<and> \<not> snd (last new) \<and> err = RemoveError (fst (last new))))"
  using assms
proof (induction ps arbitrary: st)
  case Nil
  then show ?case by simp
next
  case (Cons p ps)
  obtain ok w1 where r: "os_remove env p (world st) = (ok, w1)"
    by (cases "os_remove env p (world st)")
  let ?st1 = "emit (Remove p ok) (st\<lparr>world := w1\<rparr>)"
  show ?case
  proof (cases ok)
    case False
    with Cons.prems r have "e = Some (RemoveError p)" and "st' = ?st1" by simp_all
    then show ?thesis using False by (auto intro!: exI [of _ "[(p, False)]"])
  next
    case True
    with Cons.prems r have "remove_loop env ps ?st1 = (e, st')" by simp
    from Cons.IH [OF this] obtain new where
      n: "temp_files st' = temp_files ?st1" "successful_segments st' = successful_segments ?st1"
         "exports (trace st') = exports (trace ?st1)" "loads (trace st') = loads (trace ?st1)"
         "segment_results (trace st') = segment_results (trace ?st1)"
         "load_errors (trace st') = load_errors (trace ?st1)"
         "set (trace ?st1) \<subseteq> set (trace st')"
         "removals (trace st') = removals (trace ?st1) @ new"
         "map fst new = take (length new) ps" "list_all snd (butlast new)"
         "(case e of None \<Rightarrow> list_all snd new \<and> length new = length ps
           | Some err \<Rightarrow> new \<noteq> [] \<and> \<not> snd (last new) \<and> err = RemoveError (fst (last new)))"
      by blast
    have "removals (trace st') = removals (trace st) @ ((p, True) # new)"
      using n(8) True by simp
    moreover have "map fst ((p, True) # new) = take (length ((p, True) # new)) (p # ps)"
      using n(9) by simp
    moreover have "list_all snd (butlast ((p, True) # new))"
      using n(10) by simp
    moreover have "(case e of None \<Rightarrow> list_all snd ((p, True) # new) \<and>
          length ((p, True) # new) = length (p # ps)
        | Some err \<Rightarrow> (p, True) # new \<noteq> [] \<and> \<not> snd (last ((p, True) # new)) \<and>
            err = RemoveError (fst (last ((p, True) # new))))"
      using n(11) by (auto split: option.splits)
    ultimately show ?thesis
      using n(1-7) by (intro conjI exI [of _ "(p, True) # new"]) auto
  qed
qed

lemma cleanup_effect:
  assumes "cleanup env st = (e, st')"
  shows "temp_files st' = temp_files st \<and>
         successful_segments st' = successful_segments st \<and>
         exports (trace st') = exports (trace st) \<and>
         loads (trace st') = loads (trace st) \<and>
         segment_results (trace st') = segment_results (trace st) \<and>
         load_errors (trace st') = load_errors (trace st) \<and>
         set (trace st) \<subseteq> set (trace st') \<and>
         (\<exists>new. removals (trace st') = removals (trace st) @ new \<and>
                new \<noteq> [] \<and>
                map fst new = take (length new) (temp_files st @ [TEMP_DIR]) \<and>
                list_all snd (butlast new) \<and>
                (case e of
                   None \<Rightarrow> list_all snd new \<and> length new = Suc (length (temp_files st))
                 | Some err \<Rightarrow> \<not> snd (last new) \<and>
                     (err = RemoveError (fst (last new)) \<or> err = RmdirError)))"
proof -
  obtain e1 st1 where l: "remove_loop env (temp_files st) st = (e1, st1)"
    by (cases "remove_loop env (temp_files st) st")
  from remove_loop_effect [OF l] obtain new where
    n: "temp_files st1 = temp_files st" "successful_segments st1 = successful_segments st"
       "exports (trace st1) = exports (trace st)" "loads (trace st1) = loads (trace st)"
       "segment_results (trace st1) = segment_results (trace st)"
       "load_errors (trace st1) = load_errors (trace st)"
       "set (trace st) \<subseteq> set (trace st1)"
       "removals (trace st1) = removals (trace st) @ new"
       "map fst new = take (length new) (temp_files st)" "list_all snd (butlast new)"
       "(case e1 of None \<Rightarrow> list_all snd new \<and> length new = length (temp_files st)
         | Some err \<Rightarrow> new \<noteq> [] \<and> \<not> snd (last new) \<and> err = RemoveError (fst (last new)))"
    by blast
  have "length new = min (length new) (length (temp_files st))"
    using arg_cong [OF n(9), of length] by simp
  then have len: "length new \<le> length (temp_files st)"
    by linarith
  show ?thesis
  proof (cases e1)
    case (Some err)
    with l assms have e: "e = Some err" and st': "st' = st1" by (simp_all add: cleanup_def)
    from Some n(11) have ne: "new \<noteq> []" and nl: "\<not> snd (last new)"
      and er: "err = RemoveError (fst (last new))" by simp_all
    have m: "map fst new = take (length new) (temp_files st @ [TEMP_DIR])"
      using n(9) len by simp
    have "\<exists>new. removals (trace st') = removals (trace st) @ new \<and> new \<noteq> [] \<and>
        map fst new = take (length new) (temp_files st @ [TEMP_DIR]) \<and>
        list_all snd (butlast new) \<and>
        (case e of
           None \<Rightarrow> list_all snd new \<and> length new = Suc (length (temp_files st))
         | Some err \<Rightarrow> \<not> snd (last new) \<and>
             (err = RemoveError (fst (last new)) \<or> err = RmdirError))"
      using n(8) ne m n(10) nl er unfolding e st' by (intro exI [of _ new]) simp
    then show ?thesis using n(1-7) unfolding st' by blast
  next
    case None
    obtain ok w1 where d: "os_rmdir env TEMP_DIR (world st1) = (ok, w1)"
      by (cases "os_rmdir env TEMP_DIR (world st1)")
    let ?st2 = "emit (Rmdir TEMP_DIR ok) (st1\<lparr>world := w1\<rparr>)"
    from None n(11) have all: "list_all snd new" and ln: "length new = length (temp_files st)"
      by simp_all
    have r: "(e, st') = (if ok then (None, emit (Print MsgCleanedUp) ?st2) else (Some RmdirError, ?st2))"
      using assms l None d by (auto simp: cleanup_def Let_def)
    let ?new = "new @ [(TEMP_DIR, ok)]"
    have m: "map fst ?new = take (length ?new) (temp_files st @ [TEMP_DIR])"
      using n(9) ln by simp
    have f2: "temp_files ?st2 = temp_files st" "successful_segments ?st2 = successful_segments st"
      "exports (trace ?st2) = exports (trace st)" "loads (trace ?st2) = loads (trace st)"
      "segment_results (trace ?st2) = segment_results (trace st)"
      "load_errors (trace ?st2) = load_errors (trace st)"
      "removals (trace ?st2) = removals (trace st) @ ?new"
      using n(1-6,8) by simp_all
    have s2: "set (trace st) \<subseteq> set (trace ?st2)"
      using n(7) by auto
    show ?thesis
    proof (cases ok)
      case True
      with r have e: "e = None" and st': "st' = emit (Print MsgCleanedUp) ?st2" by simp_all
      have "\<exists>new. removals (trace st') = removals (trace st) @ new \<and> new \<noteq> [] \<and>
          map fst new = take (length new) (temp_files st @ [TEMP_DIR]) \<and>
          list_all snd (butlast new) \<and>
          (case e of
             None \<Rightarrow> list_all snd new \<and> length new = Suc (length (temp_files st))
           | Some err \<Rightarrow> \<not> snd (last new) \<and>
               (err = RemoveError (fst (last new)) \<or> err = RmdirError))"
        using f2(7) m all ln True unfolding e st' by (intro exI [of _ ?new]) simp
      moreover have "set (trace st) \<subseteq> set (trace st')"
        using s2 unfolding st' by auto
      ultimately show ?thesis using f2(1-6) unfolding st' by simp
    next
      case False
      with r have e: "e = Some RmdirError" and st': "st' = ?st2" by simp_all
      have "\<exists>new. removals (trace st') = removals (trace st) @ new \<and> new \<noteq> [] \<and>
          map fst new = take (length new) (temp_files st @ [TEMP_DIR]) \<and>
          list_all snd (butlast new) \<and>
          (case e of
             None \<Rightarrow> list_all snd new \<and> length new = Suc (length (temp_files st))
           | Some err \<Rightarrow> \<not> snd (last new) \<and>
               (err = RemoveError (fst (last new)) \<or> err = RmdirError))"
        using f2(7) m all ln False unfolding e st' by (intro exI [of _ ?new]) simp
      then show ?thesis using f2(1-6) s2 unfolding st' by blast
    qed
  qed
qed

lemma job_cases:
  assumes "r = process_and_concatenate env eng inp out w"
      and "segs = parse_input_file (read_file env inp w) default_voice_index"
  obtains
    (no_segments) "segs = []"
      "r = (Inr NoSegments,
            emit (Print MsgNoSegments)
              \<lparr>world = w, trace = [], temp_files = [], successful_segments = 0\<rparr>)"
  | (no_directory) w1 where "segs \<noteq> []" "os_makedirs env TEMP_DIR w = (False, w1)"
      "r = (Inl MakedirsError,
            \<lparr>world = w1, trace = [Makedirs TEMP_DIR False], temp_files = [],
              successful_segments = 0\<rparr>)"
  | (stopped) w1 err st2 where "segs \<noteq> []" "os_makedirs env TEMP_DIR w = (True, w1)"
      "synthesis_loop env eng 0 segs
         \<lparr>world = w1, trace = [Makedirs TEMP_DIR True], temp_files = [],
           successful_segments = 0\<rparr> = (Some err, st2)"
      "r = (Inl err, st2)"
  | (all_failed) w1 st2 where "segs \<noteq> []" "os_makedirs env TEMP_DIR w = (True, w1)"
      "synthesis_loop env eng 0 segs
         \<lparr>world = w1, trace = [Makedirs TEMP_DIR True], temp_files = [],
           successful_segments = 0\<rparr> = (None, st2)"
      "successful_segments st2 = 0"
      "r = (Inr AllSegmentsFailed, emit (Print AbortNoAudio) st2)"
  | (assembled) w1 st2 combined st3 oc st4 e st5 where
      "segs \<noteq> []" "os_makedirs env TEMP_DIR w = (True, w1)"
      "synthesis_loop env eng 0 segs
         \<lparr>world = w1, trace = [Makedirs TEMP_DIR True], temp_files = [],
           successful_segments = 0\<rparr> = (None, st2)"
      "successful_segments st2 \<noteq> 0"
      "load_loop env (temp_files st2) [] st2 = (combined, st3)"
      "export_final env combined out st3 = (oc, st4)"
      "cleanup env st4 = (e, st5)"
      "r = ((case e of Some err \<Rightarrow> Inl err | None \<Rightarrow> Inr oc), st5)"
proof -
  have sg: "parse_input_file (read_file env inp w) default_voice_index = segs"
    using assms(2) by simp
  let ?st0 = "\<lparr>world = w, trace = [], temp_files = [], successful_segments = 0\<rparr>"
  show ?thesis
  proof (cases "segs = []")
    case True
    have "r = (Inr NoSegments, emit (Print MsgNoSegments) ?st0)"
      unfolding assms(1) process_and_concatenate_def sg using True by simp
    with True show ?thesis by (rule no_segments)
  next
    case ne: False
    obtain ok w1 where mk: "os_makedirs env TEMP_DIR w = (ok, w1)"
      by (cases "os_makedirs env TEMP_DIR w")
    define st1 where "st1 = emit (Makedirs TEMP_DIR ok) (?st0\<lparr>world := w1\<rparr>)"
    have st1: "st1 = \<lparr>world = w1, trace = [Makedirs TEMP_DIR ok], temp_files = [],
        successful_segments = 0\<rparr>"
      by (simp add: st1_def emit_def)
    obtain le st2 where lp: "synthesis_loop env eng 0 segs st1 = (le, st2)"
      by (cases "synthesis_loop env eng 0 segs st1")
    have r1: "r = (if \<not> ok then (Inl MakedirsError, st1)
        else case le of
          Some err \<Rightarrow> (Inl err, st2)
        | None \<Rightarrow>
          if successful_segments st2 = 0
          then (Inr AllSegmentsFailed, emit (Print AbortNoAudio) st2)
          else (let (combined_audio, st3) = load_loop env (temp_files st2) [] st2;
                    (oc, st4) = export_final env combined_audio out st3
                in case cleanup env st4 of
                     (Some e, st5) \<Rightarrow> (Inl e, st5)
                   | (None, st5) \<Rightarrow> (Inr oc, st5)))"
    proof (cases ok)
      case False
      then show ?thesis
        unfolding assms(1) process_and_concatenate_def sg Let_def mk
        using ne by (simp add: st1_def)
    next
      case True
      with lp have lp': "synthesis_loop env eng 0 segs
          (emit (Makedirs TEMP_DIR True)
            \<lparr>world = w1, trace = [], temp_files = [], successful_segments = 0\<rparr>) = (le, st2)"
        by (simp add: st1_def)
      show ?thesis
        unfolding assms(1) process_and_concatenate_def sg Let_def mk
        using ne True by (simp add: lp' split: option.splits)
    qed
    show ?thesis
    proof (cases ok)
      case False
      with r1 have "r = (Inl MakedirsError, st1)" by simp
      with ne mk False show ?thesis unfolding st1 by (intro no_directory [of w1]) simp_all
    next
      case True
      show ?thesis
      proof (cases le)
        case (Some err)
        with r1 True have "r = (Inl err, st2)" by simp
        with ne mk True lp Some show ?thesis
          by (intro stopped [of w1 err st2]) (simp_all add: st1)
      next
        case None
        show ?thesis
        proof (cases "successful_segments st2 = 0")
          case z: True
          with r1 True None have "r = (Inr AllSegmentsFailed, emit (Print AbortNoAudio) st2)"
            by simp
          with ne mk True z lp None show ?thesis
            by (intro all_failed [of w1 st2]) (simp_all add: st1)
        next
          case nz: False
          obtain combined st3 where ld: "load_loop env (temp_files st2) [] st2 = (combined, st3)"
            by (cases "load_loop env (temp_files st2) [] st2")
          obtain oc st4 where ex: "export_final env combined out st3 = (oc, st4)"
            by (cases "export_final env combined out st3")
          obtain e st5 where cl: "cleanup env st4 = (e, st5)"
            by (cases "cleanup env st4")
          have "r = ((case e of Some err \<Rightarrow> Inl err | None \<Rightarrow> Inr oc), st5)"
            using r1 True None nz by (simp add: ld ex cl split: option.split)
          with ne mk True nz ld ex cl lp None show ?thesis
            by (intro assembled [of w1 st2 combined st3 oc st4 e st5]) (simp_all add: st1)
        qed
      qed
    qed
  qed
qed

text \<open>
  A run that has called neither \<^verbatim>\<open>export\<close> nor a removal ended before the
  concatenation: with no segment to process, with the exception of \<^verbatim>\<open>os.makedirs\<close>,
  with the exception of \<^verbatim>\<open>stop()\<close> inside the synthesis loop, or after a loop that
  went through every segment and gave no file.
\<close>

lemma job_ended_early:
  assumes "r = process_and_concatenate env eng inp out w"
      and "segs = parse_input_file (read_file env inp w) default_voice_index"
      and "exports (trace (snd r)) = [] \<and> removals (trace (snd r)) = []"
  shows "loads (trace (snd r)) = [] \<and>
         (fst r = Inr NoSegments \<and> segs = [] \<or>
          fst r = Inl MakedirsError \<and> segs \<noteq> [] \<or>
          fst r = Inl StopError \<and> segs \<noteq> [] \<or>
          fst r = Inr AllSegmentsFailed \<and> segs \<noteq> [] \<and>
            successful_segments (snd r) = 0 \<and> temp_files (snd r) = [] \<and>
            length (segment_results (trace (snd r))) = length segs \<and>
            paths_of (segment_results (trace (snd r))) = [] \<and>
            last (trace (snd r)) = Print AbortNoAudio)"
  using assms(1,2)
proof (cases rule: job_cases)
  case no_segments
  then show ?thesis by simp
next
  case (no_directory w1)
  then show ?thesis by simp
next
  case (stopped w1 err st2)
  from synthesis_loop_effect [OF stopped(3)] stopped(1,4) show ?thesis by simp
next
  case (all_failed w1 st2)
  from synthesis_loop_effect [OF all_failed(3)]
  obtain rs where "loads (trace st2) = []"
    "list_all2 (result_for env) [0..<length segs] rs" "segment_results (trace st2) = rs"
    "temp_files st2 = paths_of rs" "successful_segments st2 = length (paths_of rs)"
    by auto
  moreover from this(2) have "length rs = length segs"
    by (auto dest: list_all2_lengthD)
  ultimately show ?thesis using all_failed by simp
next
  case (assembled w1 st2 combined st3 oc st4 e st5)
  from cleanup_effect [OF assembled(7)] obtain new where
    "removals (trace st5) = removals (trace st4) @ new" "new \<noteq> []"
    by blast
  with assms(3) assembled(8) show ?thesis by simp
qed

text \<open>
  A run that has called \<^verbatim>\<open>export\<close> or a removal has gone through the whole synthesis
  loop, with one result for each segment and at least one file, has loaded the files
  in their order, has called \<^verbatim>\<open>export\<close> once with what was loaded and has begun the
  cleanup.
\<close>

lemma job_assembled:
  assumes "r = process_and_concatenate env eng inp out w"
      and "segs = parse_input_file (read_file env inp w) default_voice_index"
      and "exports (trace (snd r)) \<noteq> [] \<or> removals (trace (snd r)) \<noteq> []"
  shows "\<exists>ok new.
           list_all2 (result_for env) [0..<length segs] (segment_results (trace (snd r))) \<and>
           temp_files (snd r) = paths_of (segment_results (trace (snd r))) \<and>
           successful_segments (snd r) = length (temp_files (snd r)) \<and>
           successful_segments (snd r) \<noteq> 0 \<and>
           map fst (loads (trace (snd r))) = temp_files (snd r) \<and>
           load_errors (trace (snd r)) = unloaded (loads (trace (snd r))) \<and>
           exports (trace (snd r)) =
             [(decoded (loads (trace (snd r))), fst (export_target env out),
               snd (export_target env out), ok)] \<and>
           (ok \<or> Print FatalExport \<in> set (trace (snd r))) \<and>
           removals (trace (snd r)) = new \<and> new \<noteq> [] \<and>
           map fst new = take (length new) (temp_files (snd r) @ [TEMP_DIR]) \<and>
           list_all snd (butlast new) \<and>
           (if list_all snd new
            then length new = Suc (length (temp_files (snd r))) \<and>
                 fst r = Inr (if ok then Exported (fst (export_target env out))
                                             (snd (export_target env out))
                              else ExportFailed)
            else \<not> snd (last new) \<and>
                 (fst r = Inl (RemoveError (fst (last new))) \<or> fst r = Inl RmdirError))"
  using assms(1,2)
proof (cases rule: job_cases)
  case no_segments
  with assms(3) show ?thesis by simp
next
  case (no_directory w1)
  with assms(3) show ?thesis by simp
next
  case (stopped w1 err st2)
  from synthesis_loop_effect [OF stopped(3)] stopped(4) assms(3) show ?thesis by simp
next
  case (all_failed w1 st2)
  from synthesis_loop_effect [OF all_failed(3)] all_failed(5) assms(3) show ?thesis by simp
next
  case (assembled w1 st2 combined st3 oc st4 e st5)
  from synthesis_loop_effect [OF assembled(3)]
  obtain rs where s2: "exports (trace st2) = []" "loads (trace st2) = []"
    "removals (trace st2) = []" "load_errors (trace st2) = []"
    "list_all2 (result_for env) [0..<length segs] rs" "segment_results (trace st2) = rs"
    "temp_files st2 = paths_of rs" "successful_segments st2 = length (paths_of rs)"
    by auto
  from load_loop_effect [OF assembled(5)]
  have s3: "temp_files st3 = temp_files st2" "successful_segments st3 = successful_segments st2"
    "exports (trace st3) = []" "removals (trace st3) = []" "segment_results (trace st3) = rs"
    "map fst (loads (trace st3)) = temp_files st2" "combined = decoded (loads (trace st3))"
    "load_errors (trace st3) = unloaded (loads (trace st3))"
    using s2 by (simp_all add: comp_def)
  from export_final_effect [OF assembled(6)] obtain ok where
    s4: "temp_files st4 = temp_files st2" "successful_segments st4 = successful_segments st2"
    "loads (trace st4) = loads (trace st3)" "removals (trace st4) = []"
    "segment_results (trace st4) = rs"
    "load_errors (trace st4) = load_errors (trace st3)"
    "exports (trace st4) = [(combined, fst (export_target env out), snd (export_target env out), ok)]"
    "oc = (if ok then Exported (fst (export_target env out)) (snd (export_target env out))
           else ExportFailed)"
    "ok \<or> Print FatalExport \<in> set (trace st4)"
    using s3 by auto
  from cleanup_effect [OF assembled(7)] obtain new where
    c: "temp_files st5 = temp_files st4" "successful_segments st5 = successful_segments st4"
    "exports (trace st5) = exports (trace st4)" "loads (trace st5) = loads (trace st4)"
    "segment_results (trace st5) = segment_results (trace st4)"
    "load_errors (trace st5) = load_errors (trace st4)"
    "set (trace st4) \<subseteq> set (trace st5)"
    "removals (trace st5) = removals (trace st4) @ new" "new \<noteq> []"
    "map fst new = take (length new) (temp_files st4 @ [TEMP_DIR])"
    "list_all snd (butlast new)"
    "(case e of
        None \<Rightarrow> list_all snd new \<and> length new = Suc (length (temp_files st4))
      | Some err \<Rightarrow> \<not> snd (last new) \<and>
          (err = RemoveError (fst (last new)) \<or> err = RmdirError))"
    by blast
  have s5: "temp_files st5 = temp_files st2" "successful_segments st5 = successful_segments st2"
    "exports (trace st5) = exports (trace st4)" "loads (trace st5) = loads (trace st3)"
    "segment_results (trace st5) = rs" "load_errors (trace st5) = unloaded (loads (trace st3))"
    "set (trace st4) \<subseteq> set (trace st5)"
    "removals (trace st5) = new" "new \<noteq> []"
    "map fst new = take (length new) (temp_files st2 @ [TEMP_DIR])"
    "list_all snd (butlast new)"
    "(case e of
        None \<Rightarrow> list_all snd new \<and> length new = Suc (length (temp_files st2))
      | Some err \<Rightarrow> \<not> snd (last new) \<and>
          (err = RemoveError (fst (last new)) \<or> err = RmdirError))"
    using c s3(8) unfolding s4(1-6) by simp_all
  have last_all: "list_all snd new = snd (last new)"
    using s5(9,11) by (cases new rule: rev_cases) simp_all
  have fin: "(if list_all snd new
            then length new = Suc (length (temp_files st2)) \<and>
                 fst r = Inr (if ok then Exported (fst (export_target env out))
                                             (snd (export_target env out))
                              else ExportFailed)
            else \<not> snd (last new) \<and>
                 (fst r = Inl (RemoveError (fst (last new))) \<or> fst r = Inl RmdirError))"
  proof (cases e)
    case None
    with s5(12) assembled(8) s4(8) show ?thesis by simp
  next
    case (Some err)
    with s5(12) assembled(8) last_all show ?thesis by auto
  qed
  have sn: "snd r = st5" using assembled(8) by simp
  have fe: "ok \<or> Print FatalExport \<in> set (trace st5)"
    using s4(9) s5(7) by blast
  have nz: "successful_segments st2 \<noteq> 0" by (rule assembled(4))
  show ?thesis
    unfolding sn
    using s2(5) s5(5) s5(1) s2(7) s5(2) s2(8) nz s3(6) s5(4) s5(6) s5(3) s4(7) s3(7) fe s5(8-11) fin
    by (intro exI [of _ ok] exI [of _ new]) simp
qed

section \<open>The path and the format of the export\<close>

lemma rfind_last_occurrence:
  assumes "c \<notin> set ys"
  shows "rfind c (xs @ c # ys) = int (length xs)"
proof -
  have "takeWhile (\<lambda>x. x \<noteq> c) (rev ys @ c # rev xs) = rev ys @ takeWhile (\<lambda>x. x \<noteq> c) (c # rev xs)"
    using assms by (intro takeWhile_append2) auto
  then show ?thesis by (simp add: rfind_def)
qed

lemma rfind_ge: "- 1 \<le> rfind c s"
proof (cases "c \<in> set s")
  case True
  then obtain xs ys where "s = xs @ c # ys" and "c \<notin> set ys"
    by (auto dest: split_list_last)
  then show ?thesis by (simp add: rfind_last_occurrence)
next
  case False
  then show ?thesis by (simp add: rfind_def)
qed

lemma splitext_extension:
  "snd (splitext env p) = [] \<or>
   (\<exists>e. snd (splitext env p) = CHR ''.'' # e \<and> CHR ''.'' \<notin> set e)"
proof (cases "CHR ''.'' \<in> set p")
  case False
  then have "rfind CHR ''.'' p = - 1" by (simp add: rfind_def)
  moreover have "- 1 \<le> rfind (path_sep env) p" by (rule rfind_ge)
  ultimately show ?thesis
    by (auto simp: splitext_def Let_def split: option.splits)
next
  case True
  then obtain xs ys where p: "p = xs @ CHR ''.'' # ys" and ys: "CHR ''.'' \<notin> set ys"
    by (auto dest: split_list_last)
  then have "rfind CHR ''.'' p = int (length xs)"
    by (simp add: rfind_last_occurrence)
  then have "drop (nat (rfind CHR ''.'' p)) p = CHR ''.'' # ys"
    using p by simp
  then show ?thesis using ys
    by (auto simp: splitext_def Let_def split: option.splits)
qed

lemma lower_char_dot: "(lower_char c = CHR ''.'') = (c = CHR ''.'')"
  by (cases c) (auto simp: is_upper_def)

lemma lower_no_dot: "CHR ''.'' \<notin> set e \<Longrightarrow> CHR ''.'' \<notin> set (lower e)"
proof (induction e)
  case Nil
  then show ?case by (simp add: lower_def)
next
  case (Cons c e)
  then have "c \<noteq> CHR ''.''" and "CHR ''.'' \<notin> set (lower e)" by auto
  moreover from this(1) have "lower_char c \<noteq> CHR ''.''" by (simp add: lower_char_dot)
  ultimately show ?case unfolding lower_def by auto
qed

lemma dropWhile_none: "\<forall>x\<in>set xs. \<not> P x \<Longrightarrow> dropWhile P xs = xs"
  by (cases xs) auto

lemma strip_dots_extension:
  assumes "CHR ''.'' \<notin> set e"
  shows "strip_where (\<lambda>c. c = CHR ''.'') (lower (CHR ''.'' # e)) = lower e"
proof -
  have n: "\<forall>x\<in>set (lower e). \<not> x = CHR ''.''"
    using lower_no_dot [OF assms] by auto
  have "lower (CHR ''.'' # e) = CHR ''.'' # lower e"
    by (simp add: lower_def is_upper_def)
  moreover have "dropWhile (\<lambda>c. c = CHR ''.'') (CHR ''.'' # lower e) = lower e"
    using n by (simp add: dropWhile_none)
  moreover have "dropWhile (\<lambda>c. c = CHR ''.'') (rev (lower e)) = rev (lower e)"
    using n by (simp add: dropWhile_none)
  ultimately show ?thesis by (simp add: strip_where_def)
qed

lemma export_target_extension:
  "export_target env p =
     (if tl (snd (splitext env p)) = [] then (p @ ''.wav'', ''wav'')
      else (p, lower (tl (snd (splitext env p)))))"
proof -
  from splitext_extension [of env p] show ?thesis
  proof
    assume "snd (splitext env p) = []"
    then show ?thesis by (simp add: export_target_def lower_def strip_where_def)
  next
    assume "\<exists>e. snd (splitext env p) = CHR ''.'' # e \<and> CHR ''.'' \<notin> set e"
    then obtain e where e: "snd (splitext env p) = CHR ''.'' # e" "CHR ''.'' \<notin> set e"
      by blast
    have "lower e = [] \<longleftrightarrow> e = []" by (simp add: lower_def)
    then show ?thesis
      using e strip_dots_extension [OF e(2)] by (simp add: export_target_def)
  qed
qed

lemma splitext_parts: "fst (splitext env p) @ snd (splitext env p) = p"
  by (simp add: splitext_def Let_def)

section \<open>Properties of the pipeline\<close>

text \<open>
  In a run that the exception of \<^verbatim>\<open>stop()\<close> does not end, the count of successful
  segments decides: with none the run exports nothing and loads nothing, and with one
  or more it loads every temporary file and calls \<^verbatim>\<open>export\<close> once.
\<close>

lemma job_without_stop_failure:
  assumes "r = process_and_concatenate env eng inp out w"
      and "segs = parse_input_file (read_file env inp w) default_voice_index"
      and "fst r \<noteq> Inl StopError"
  shows "(successful_segments (snd r) = 0 \<longrightarrow>
            exports (trace (snd r)) = [] \<and> loads (trace (snd r)) = [] \<and>
            fst r = (if segs = [] then Inr NoSegments
                     else if fst (os_makedirs env TEMP_DIR w) then Inr AllSegmentsFailed
                     else Inl MakedirsError)) \<and>
         (successful_segments (snd r) \<noteq> 0 \<longrightarrow>
            length (exports (trace (snd r))) = 1 \<and>
            map fst (loads (trace (snd r))) = temp_files (snd r))"
  using assms(1,2)
proof (cases rule: job_cases)
  case no_segments
  then show ?thesis by simp
next
  case (no_directory w1)
  then show ?thesis by simp
next
  case (stopped w1 err st2)
  from synthesis_loop_effect [OF stopped(3)] have "err = StopError" by simp
  with stopped(4) assms(3) show ?thesis by simp
next
  case (all_failed w1 st2)
  from synthesis_loop_effect [OF all_failed(3)] all_failed show ?thesis by simp
next
  case (assembled w1 st2 combined st3 oc st4 e st5)
  from cleanup_effect [OF assembled(7)] obtain new where
    "removals (trace st5) = removals (trace st4) @ new" "new \<noteq> []"
    by blast
  with assembled(8) have "exports (trace (snd r)) \<noteq> [] \<or> removals (trace (snd r)) \<noteq> []"
    by simp
  from job_assembled [OF assms(1,2) this] show ?thesis by auto
qed

text \<open>
  C4. The claim: with no successful segment nothing is exported, and with at least one
  successful segment the assembly proceeds. The second half fails when \<^verbatim>\<open>stop()\<close> of
  the local engine raises: the call stands in the \<^verbatim>\<open>finally\<close> clause of
  \<^verbatim>\<open>synthesize_segment\<close>, outside its \<^verbatim>\<open>except\<close> clause, and no handler stands
  around the call of \<^verbatim>\<open>synthesize_segment\<close> in the loop. In the document
  \<open>/voice=1 One /voice=0 Two /voice=1 Three\<close> the first segment is synthesized by the
  remote engine and counted; the second goes to the local engine, whose \<^verbatim>\<open>stop()\<close>
  raises; the run ends there with that exception, the third segment is never tried,
  and nothing is loaded, exported or removed, although one segment has succeeded. In
  the world where \<^verbatim>\<open>stop()\<close> returns, the same document is exported.
\<close>

theorem stop_failure_ends_job_after_success:
  "successful_segments
     (snd (demo_job_stop_raises ''/voice=1 One /voice=0 Two /voice=1 Three'' ''out.wav'')) = 1 \<and>
   temp_files (snd (demo_job_stop_raises ''/voice=1 One /voice=0 Two /voice=1 Three'' ''out.wav''))
     = [''tts_temp_segments/segment_0.mp3''] \<and>
   fst (demo_job_stop_raises ''/voice=1 One /voice=0 Two /voice=1 Three'' ''out.wav'')
     = Inl StopError \<and>
   backend_calls
     (trace (snd (demo_job_stop_raises ''/voice=1 One /voice=0 Two /voice=1 Three'' ''out.wav'')))
     = [(EdgeTTS, ''One'', ''en-US-AriaNeural'', ''tts_temp_segments/segment_0.mp3'', True),
        (Pyttsx3, ''Two'', ''zira'', ''tts_temp_segments/segment_1.wav'', True)] \<and>
   last (trace (snd (demo_job_stop_raises ''/voice=1 One /voice=0 Two /voice=1 Three'' ''out.wav'')))
     = EngineStop False \<and>
   loads (trace (snd (demo_job_stop_raises ''/voice=1 One /voice=0 Two /voice=1 Three'' ''out.wav'')))
     = [] \<and>
   exports (trace (snd (demo_job_stop_raises ''/voice=1 One /voice=0 Two /voice=1 Three'' ''out.wav'')))
     = [] \<and>
   removals (trace (snd (demo_job_stop_raises ''/voice=1 One /voice=0 Two /voice=1 Three'' ''out.wav'')))
     = [] \<and>
   fst (demo_job ''/voice=1 One /voice=0 Two /voice=1 Three'' True True True True ''out.wav'')
     = Inr (Exported ''out.wav'' ''wav'')"
  by code_simp

text \<open>
  C3, as amended. In a run that reaches the export, each segment, in the order of the
  document, has given one result: nothing, or the temporary file of its own index. The
  temporary files are the results that are files, in that order; each of them is
  loaded once, in that order; the files that did not load are those for which a load
  error was printed; and the audio that is exported is the concatenation, in that
  order, of the files that loaded. A failed segment is left out, and so is a
  successful segment whose file does not load.
\<close>

theorem assembly_in_segment_order:
  assumes "r = process_and_concatenate env eng inp out w"
      and "segs = parse_input_file (read_file env inp w) default_voice_index"
      and "exports (trace (snd r)) \<noteq> []"
  shows "list_all2 (result_for env) [0..<length segs] (segment_results (trace (snd r))) \<and>
         temp_files (snd r) = paths_of (segment_results (trace (snd r))) \<and>
         map fst (loads (trace (snd r))) = temp_files (snd r) \<and>
         load_errors (trace (snd r)) = unloaded (loads (trace (snd r))) \<and>
         map fst (exports (trace (snd r))) = [decoded (loads (trace (snd r)))]"
proof -
  from assms(3) have "exports (trace (snd r)) \<noteq> [] \<or> removals (trace (snd r)) \<noteq> []" by simp
  from job_assembled [OF assms(1,2) this] show ?thesis by auto
qed

theorem assembly_in_segment_order_witness:
  "exports (trace (snd (demo_job ''One /voice=1 Two /voice=0 Three'' False True True True ''out.wav''))) \<noteq> [] \<and>
   segment_results (trace (snd (demo_job ''One /voice=1 Two /voice=0 Three'' False True True True ''out.wav'')))
     = [Some ''tts_temp_segments/segment_0.wav'', None, Some ''tts_temp_segments/segment_2.wav''] \<and>
   loads (trace (snd (demo_job ''One /voice=1 Two /voice=0 Three'' False True True True ''out.wav'')))
     = [(''tts_temp_segments/segment_0.wav'', Some (map of_char ''One'')),
        (''tts_temp_segments/segment_2.wav'', Some (map of_char ''Three''))] \<and>
   load_errors (trace (snd (demo_job ''One /voice=1 Two /voice=0 Three'' False True True True ''out.wav'')))
     = [] \<and>
   map fst (exports (trace (snd (demo_job ''One /voice=1 Two /voice=0 Three'' False True True True ''out.wav''))))
     = [map of_char ''OneThree'']"
proof -
  let ?j = "demo_job ''One /voice=1 Two /voice=0 Three'' False True True True ''out.wav''"
  have h: "exports (trace (snd ?j)) \<noteq> []" by code_simp
  have rs: "segment_results (trace (snd ?j))
     = [Some ''tts_temp_segments/segment_0.wav'', None, Some ''tts_temp_segments/segment_2.wav'']"
    by code_simp
  have ls: "loads (trace (snd ?j))
     = [(''tts_temp_segments/segment_0.wav'', Some (map of_char ''One'')),
        (''tts_temp_segments/segment_2.wav'', Some (map of_char ''Three''))]"
    by code_simp
  from assembly_in_segment_order [OF demo_job_def refl h]
  have "load_errors (trace (snd ?j)) = unloaded (loads (trace (snd ?j)))"
    and "map fst (exports (trace (snd ?j))) = [decoded (loads (trace (snd ?j)))]"
    by simp_all
  then have "load_errors (trace (snd ?j)) = []"
    and "map fst (exports (trace (snd ?j))) = [map of_char ''OneThree'']"
    unfolding ls by simp_all
  with h rs ls show ?thesis by simp
qed

text \<open>
  C3, as stated, fails: the loop that loads the temporary files catches the exception
  of \<^verbatim>\<open>AudioSegment.from_file\<close>, prints it and goes on. In a world whose codec cannot
  decode the compressed files of the remote engine, both segments of
  \<open>Hi /voice=1 yo\<close> are synthesized successfully, the load error of the second file
  is printed, and the artifact holds the audio of the first one only.
\<close>

theorem undecodable_success_left_out:
  "segment_results (trace (snd (demo_job ''Hi /voice=1 yo'' True False True True ''out.wav'')))
     = [Some ''tts_temp_segments/segment_0.wav'', Some ''tts_temp_segments/segment_1.mp3''] \<and>
   successful_segments (snd (demo_job ''Hi /voice=1 yo'' True False True True ''out.wav'')) = 2 \<and>
   backend_calls (trace (snd (demo_job ''Hi /voice=1 yo'' True False True True ''out.wav'')))
     = [(Pyttsx3, ''Hi'', ''zira'', ''tts_temp_segments/segment_0.wav'', True),
        (EdgeTTS, ''yo'', ''en-US-AriaNeural'', ''tts_temp_segments/segment_1.mp3'', True)] \<and>
   load_errors (trace (snd (demo_job ''Hi /voice=1 yo'' True False True True ''out.wav'')))
     = [''tts_temp_segments/segment_1.mp3''] \<and>
   exports (trace (snd (demo_job ''Hi /voice=1 yo'' True False True True ''out.wav'')))
     = [(map of_char ''Hi'', ''out.wav'', ''wav'', True)] \<and>
   fst (demo_job ''Hi /voice=1 yo'' True False True True ''out.wav'')
     = Inr (Exported ''out.wav'' ''wav'')"
  by code_simp

lemma default_voice_found:
  "unified_voices eng \<noteq> [] \<Longrightarrow>
     get_voice_by_index eng default_voice_index = Some (hd (unified_voices eng))"
  by (cases "unified_voices eng") (simp_all add: get_voice_by_index_def default_voice_index_def)

text \<open>
  The constructor of the engine leaves the program when it finds no voice, so the
  catalog of a running pipeline is not empty. With such a catalog, a segment whose
  voice index is at least the size of the catalog is processed as the same segment
  with the default voice index, after a warning that names both indices, and the
  default index is found in the catalog. The segment then gives one result, unless
  \<^verbatim>\<open>stop()\<close> of the local engine raises.
\<close>

lemma out_of_range_step:
  assumes "unified_voices eng \<noteq> []"
      and "int (length (unified_voices eng)) \<le> voice_index seg"
  shows "process_segment env eng i seg st =
           process_segment env eng i (seg\<lparr>voice_index := default_voice_index\<rparr>)
             (emit (Print (WarnOutOfRange (voice_index seg) default_voice_index)) st) \<and>
         get_voice_by_index eng default_voice_index = Some (hd (unified_voices eng)) \<and>
         (case fst (process_segment env eng i seg st) of
            None \<Rightarrow> length (segment_results (trace (snd (process_segment env eng i seg st))))
                      = Suc (length (segment_results (trace st)))
          | Some err \<Rightarrow> err = StopError)"
proof -
  let ?warned = "emit (Print (WarnOutOfRange (voice_index seg) default_voice_index)) st"
  have n: "\<not> int (length (unified_voices eng)) \<le> default_voice_index"
    using assms(1) by (simp add: default_voice_index_def)
  have one: "process_segment env eng i seg st =
      process_segment env eng i (seg\<lparr>voice_index := default_voice_index\<rparr>) ?warned"
    using assms(2) n by (simp add: process_segment_def)
  have two: "get_voice_by_index eng default_voice_index = Some (hd (unified_voices eng))"
    using assms(1) by (rule default_voice_found)
  obtain e st' where p: "process_segment env eng i seg st = (e, st')"
    by (cases "process_segment env eng i seg st")
  from process_segment_effect [OF p]
  have three: "(case fst (process_segment env eng i seg st) of
            None \<Rightarrow> length (segment_results (trace (snd (process_segment env eng i seg st))))
                      = Suc (length (segment_results (trace st)))
          | Some err \<Rightarrow> err = StopError)"
    unfolding p by (cases e) auto
  from one two three show ?thesis by blast
qed

text \<open>
  C5. The claim: a segment with an out-of-range voice index is given the default
  voice, with a warning, and still yields a result. The warning and the default voice
  are as claimed, but the segment yields no result when \<^verbatim>\<open>stop()\<close> of the local
  engine raises: in the document \<open>/voice=7 end\<close>, with a catalog of two voices, the
  warning is printed, the local engine of the default voice writes the file, the file
  exists, \<^verbatim>\<open>stop()\<close> raises, and the run ends with that exception: the segment is
  neither recorded as a file nor reported as failed. In the world where \<^verbatim>\<open>stop()\<close>
  returns, the same document is exported.
\<close>

theorem stop_failure_leaves_segment_without_result:
  "parse_input_file (Some ''/voice=7 end'') default_voice_index
     = [\<lparr>seg_text = ''end'', voice_index = 7\<rparr>] \<and>
   int (length (unified_voices demo_engine)) \<le> 7 \<and>
   trace (snd (demo_job_stop_raises ''/voice=7 end'' ''out.wav''))
     = [Makedirs ''tts_temp_segments'' True,
        Print (WarnOutOfRange 7 0),
        EngineInit True,
        EngineSave ''end'' ''zira'' ''tts_temp_segments/segment_0.wav'' True,
        Exists ''tts_temp_segments/segment_0.wav'' True,
        EngineStop False] \<and>
   fst (demo_job_stop_raises ''/voice=7 end'' ''out.wav'') = Inl StopError \<and>
   temp_files (snd (demo_job_stop_raises ''/voice=7 end'' ''out.wav'')) = [] \<and>
   successful_segments (snd (demo_job_stop_raises ''/voice=7 end'' ''out.wav'')) = 0 \<and>
   fst (demo_job ''/voice=7 end'' True True True True ''out.wav'')
     = Inr (Exported ''out.wav'' ''wav'')"
  by code_simp

text \<open>
  What \<^verbatim>\<open>get_voice_by_index\<close> computes: \<^verbatim>\<open>None\<close> exactly when the index is at least
  the size of the catalog or less than minus the size. An index \<open>k\<close> from 0 below the
  size gives the voice at \<open>k\<close>; an index \<open>-(k + 1)\<close> with \<open>k\<close> below the size gives the
  voice \<open>k + 1\<close> places from the end. No index raises.
\<close>

lemma get_voice_by_index_cases:
  "(get_voice_by_index eng i = None) =
     (int (length (unified_voices eng)) \<le> i \<or> i < - int (length (unified_voices eng))) \<and>
   get_voice_by_index eng (int k) =
     (if k < length (unified_voices eng) then Some (unified_voices eng ! k) else None) \<and>
   get_voice_by_index eng (- int (Suc k)) =
     (if k < length (unified_voices eng)
      then Some (unified_voices eng ! (length (unified_voices eng) - Suc k)) else None)"
proof (intro conjI)
  show "(get_voice_by_index eng i = None) =
     (int (length (unified_voices eng)) \<le> i \<or> i < - int (length (unified_voices eng)))"
    by (auto simp: get_voice_by_index_def Let_def)
  show "get_voice_by_index eng (int k) =
     (if k < length (unified_voices eng) then Some (unified_voices eng ! k) else None)"
    by (simp add: get_voice_by_index_def Let_def)
  have "nat (int (length (unified_voices eng)) + - int (Suc k))
      = length (unified_voices eng) - Suc k"
    by arith
  then show "get_voice_by_index eng (- int (Suc k)) =
     (if k < length (unified_voices eng)
      then Some (unified_voices eng ! (length (unified_voices eng) - Suc k)) else None)"
    unfolding get_voice_by_index_def Let_def by (simp del: of_nat_Suc)
qed

text \<open>
  C6. The claim: the lookup gives \<^verbatim>\<open>None\<close> exactly when the index does not address an
  entry of the catalog. It fails at a negative index: \<open>-1\<close> is not an index of the
  catalog (its indices start at 0), and the lookup returns the last voice, because
  the list is indexed directly and only \<^verbatim>\<open>IndexError\<close> is caught.
\<close>

theorem negative_index_finds_a_voice:
  "\<not> (0 \<le> (- 1 :: int) \<and> (- 1 :: int) < int (length (unified_voices demo_engine))) \<and>
   get_voice_by_index demo_engine (- 1) =
     Some \<lparr>index = 1, engine = EdgeTTS, name = ''Aria'', ident = ''en-US-AriaNeural'',
            lang = ''en-US''\<rparr>"
  by (simp add: get_voice_by_index_def demo_engine_def)

text \<open>
  C7, as amended. When the export fails, the failure is printed and the job goes on to
  the cleanup as it does after a successful export: there are temporary files, the
  first removal is that of the first temporary file, and if every removal succeeds the
  job ends as \<open>ExportFailed\<close> with every temporary file and then the temporary
  directory removed. If a removal raises, the job ends with the exception of that
  removal instead.
\<close>

theorem export_failure_still_cleans_up:
  assumes "r = process_and_concatenate env eng inp out w"
      and "(a, p, f, False) \<in> set (exports (trace (snd r)))"
  shows "Print FatalExport \<in> set (trace (snd r)) \<and>
         temp_files (snd r) \<noteq> [] \<and>
         removals (trace (snd r)) \<noteq> [] \<and>
         fst (hd (removals (trace (snd r)))) = hd (temp_files (snd r)) \<and>
         (if list_all snd (removals (trace (snd r)))
          then fst r = Inr ExportFailed \<and>
               map fst (removals (trace (snd r))) = temp_files (snd r) @ [TEMP_DIR]
          else fst r = Inl (RemoveError (fst (last (removals (trace (snd r)))))) \<or>
               fst r = Inl RmdirError)"
proof -
  from assms(2) have re: "exports (trace (snd r)) \<noteq> [] \<or> removals (trace (snd r)) \<noteq> []"
    by auto
  from job_assembled [OF assms(1) refl re] obtain ok new where
    nz: "successful_segments (snd r) \<noteq> 0" and
    j: "successful_segments (snd r) = length (temp_files (snd r))"
       "exports (trace (snd r)) =
          [(decoded (loads (trace (snd r))), fst (export_target env out),
            snd (export_target env out), ok)]"
       "ok \<or> Print FatalExport \<in> set (trace (snd r))"
       "removals (trace (snd r)) = new" "new \<noteq> []"
       "map fst new = take (length new) (temp_files (snd r) @ [TEMP_DIR])"
       "(if list_all snd new
         then length new = Suc (length (temp_files (snd r))) \<and>
              fst r = Inr (if ok then Exported (fst (export_target env out))
                                          (snd (export_target env out))
                           else ExportFailed)
         else \<not> snd (last new) \<and>
              (fst r = Inl (RemoveError (fst (last new))) \<or> fst r = Inl RmdirError))"
    by blast
  from assms(2) j(2) have ok: "\<not> ok" by simp
  from nz j(1) have tf: "temp_files (snd r) \<noteq> []" by auto
  have "hd (map fst new) = hd (take (length new) (temp_files (snd r) @ [TEMP_DIR]))"
    using j(6) by simp
  then have h: "fst (hd new) = hd (temp_files (snd r))"
    using j(5) tf by (cases new; cases "temp_files (snd r)") simp_all
  have "map fst new = temp_files (snd r) @ [TEMP_DIR]"
    if "length new = Suc (length (temp_files (snd r)))"
    using j(6) that by simp
  with j(7) ok have c: "if list_all snd new
      then fst r = Inr ExportFailed \<and> map fst new = temp_files (snd r) @ [TEMP_DIR]
      else fst r = Inl (RemoveError (fst (last new))) \<or> fst r = Inl RmdirError"
    by (simp split: if_splits)
  from ok j(3) tf j(5) h c show ?thesis unfolding j(4) by simp
qed

theorem export_failure_still_cleans_up_witness:
  "([72, 105], ''out.wav'', ''wav'', False)
     \<in> set (exports (trace (snd (demo_job ''Hi'' True True False True ''out.wav'')))) \<and>
   Print FatalExport \<in> set (trace (snd (demo_job ''Hi'' True True False True ''out.wav''))) \<and>
   list_all snd (removals (trace (snd (demo_job ''Hi'' True True False True ''out.wav'')))) \<and>
   map fst (removals (trace (snd (demo_job ''Hi'' True True False True ''out.wav''))))
     = temp_files (snd (demo_job ''Hi'' True True False True ''out.wav'')) @ [TEMP_DIR]"
proof -
  let ?j = "demo_job ''Hi'' True True False True ''out.wav''"
  have a: "([72, 105], ''out.wav'', ''wav'', False) \<in> set (exports (trace (snd ?j)))"
    by code_simp
  have b: "list_all snd (removals (trace (snd ?j)))" by code_simp
  from export_failure_still_cleans_up [OF demo_job_def a] b
  have "Print FatalExport \<in> set (trace (snd ?j)) \<and>
      map fst (removals (trace (snd ?j))) = temp_files (snd ?j) @ [TEMP_DIR]"
    by simp
  with a b show ?thesis by simp
qed

text \<open>
  C7, as stated, fails: after a failed export the temporary file of the segment is
  removed like after a successful one, and nothing of the synthesized audio is left
  in the world.
\<close>

theorem segment_files_removed_after_failed_export:
  "fst (demo_job ''Hi'' True True False True ''out.wav'') = Inr ExportFailed \<and>
   temp_files (snd (demo_job ''Hi'' True True False True ''out.wav''))
     = [''tts_temp_segments/segment_0.wav''] \<and>
   removals (trace (snd (demo_job ''Hi'' True True False True ''out.wav'')))
     = [(''tts_temp_segments/segment_0.wav'', True), (''tts_temp_segments'', True)] \<and>
   world (snd (demo_job ''Hi'' True True False True ''out.wav'')) = []"
  by code_simp




text \<open>
  C9. Every call of \<^verbatim>\<open>export\<close> is made with the path and the format that the output
  path gives, and a run that reaches the export calls it once. When the extension of
  the output path, taken without its leading dot, is empty, the path is the output
  path with \<open>.wav\<close> appended and the format is \<open>wav\<close>; otherwise the path is the
  output path and the format is that extension in lower case. The extension is what
  \<^verbatim>\<open>os.path.splitext\<close> splits off the end of the path: nothing, or a dot and what
  follows it.
\<close>

theorem export_format_from_extension:
  assumes "r = process_and_concatenate env eng inp out w"
      and "exports (trace (snd r)) \<noteq> []"
  shows "map (\<lambda>(a, q, f, ok). (q, f)) (exports (trace (snd r))) =
           [if tl (snd (splitext env out)) = [] then (out @ ''.wav'', ''wav'')
            else (out, lower (tl (snd (splitext env out))))] \<and>
         fst (splitext env out) @ snd (splitext env out) = out \<and>
         (snd (splitext env out) = [] \<or> hd (snd (splitext env out)) = CHR ''.'')"
proof -
  from assms(2) have "exports (trace (snd r)) \<noteq> [] \<or> removals (trace (snd r)) \<noteq> []" by simp
  from job_assembled [OF assms(1) refl this] obtain ok where
    "exports (trace (snd r)) =
       [(decoded (loads (trace (snd r))), fst (export_target env out),
         snd (export_target env out), ok)]"
    by blast
  then have "map (\<lambda>(a, q, f, ok). (q, f)) (exports (trace (snd r))) = [export_target env out]"
    by simp
  moreover have "snd (splitext env out) = [] \<or> hd (snd (splitext env out)) = CHR ''.''"
    using splitext_extension [of env out] by auto
  ultimately show ?thesis
    by (simp add: export_target_extension splitext_parts)
qed

theorem export_format_from_extension_witness:
  "exports (trace (snd (demo_job ''Hi'' True True True True ''out''))) \<noteq> [] \<and>
   exports (trace (snd (demo_job ''Hi'' True True True True (''mix.v2.M'' @ [CHR 0xDC])))) \<noteq> [] \<and>
   map (\<lambda>(a, q, f, ok). (q, f)) (exports (trace (snd (demo_job ''Hi'' True True True True ''out''))))
     = [(''out.wav'', ''wav'')] \<and>
   map (\<lambda>(a, q, f, ok). (q, f))
       (exports (trace (snd (demo_job ''Hi'' True True True True (''mix.v2.M'' @ [CHR 0xDC])))))
     = [(''mix.v2.M'' @ [CHR 0xDC], ''m'' @ [CHR 0xFC])]"
proof -
  let ?e = "demo_env ''Hi'' True True True True"
  let ?o = "''mix.v2.M'' @ [CHR 0xDC]"
  let ?a = "demo_job ''Hi'' True True True True ''out''"
  let ?b = "demo_job ''Hi'' True True True True ?o"
  have a: "exports (trace (snd ?a)) \<noteq> []" by code_simp
  have b: "exports (trace (snd ?b)) \<noteq> []" by code_simp
  have sa: "snd (splitext ?e ''out'') = []" by code_simp
  have sb: "snd (splitext ?e ?o) = ''.M'' @ [CHR 0xDC]" by code_simp
  have lb: "lower (''M'' @ [CHR 0xDC]) = ''m'' @ [CHR 0xFC]" by code_simp
  from export_format_from_extension [OF demo_job_def a]
  have "map (\<lambda>(a, q, f, ok). (q, f)) (exports (trace (snd ?a))) = [(''out.wav'', ''wav'')]"
    unfolding sa by simp
  moreover from export_format_from_extension [OF demo_job_def b]
  have "map (\<lambda>(a, q, f, ok). (q, f)) (exports (trace (snd ?b))) = [(?o, ''m'' @ [CHR 0xFC])]"
    unfolding sb using lb by simp
  ultimately show ?thesis using a b by simp
qed

end
